theory Spec2Isabelle
  imports
    Main
    "HOL-Library.List_Lexorder"
    "HOL-Library.Product_Lexorder"
    "HOL-Library.Multiset"
begin

section \<open>B.League schedule scraper: a shallow embedding of b\_league\_schedule\_scraper.py\<close>

text \<open>
  The program reads monthly schedule pages of two basketball teams, extracts one \<open>Game\<close>
  per fixture (a structured pass over a known list, then a regex pass over the flattened
  text of arbitrary nodes), sorts the games and writes them as rows of a calendar CSV; a
  second command compares two such CSV files.

  What belongs to the Python runtime or to third-party libraries is not part of the
  program and enters the model as data: a fetched and parsed page is the list of the
  schedule entries and the list of the candidate nodes' texts that BeautifulSoup hands to
  the program, a CSV file is the list of rows that \<open>csv.reader\<close> yields. Everything
  the program itself computes on these (cleaning, regular expressions, dates, the
  dictionary that removes duplicates, sorting, row construction, the row comparison) is
  modelled step by step.
\<close>

subsection \<open>Python strings\<close>

text \<open>
  A Python \<open>str\<close> is a sequence of Unicode code points. Comparison of two strings is
  lexicographic on code points, which is the order of \<open>HOL-Library.List_Lexorder\<close>.
\<close>

type_synonym str = "nat list"

definition asc :: "string \<Rightarrow> str" where
  \<comment> \<open>an ASCII literal\<close>
  "asc s = map of_char s"

definition isspace :: "nat \<Rightarrow> bool" where
  \<comment> \<open>\<open>str.isspace\<close> on one code point; the class \<open>\s\<close> of \<open>re\<close> is the same set\<close>
  "isspace c \<longleftrightarrow>
     (0x09 \<le> c \<and> c \<le> 0x0D) \<or> (0x1C \<le> c \<and> c \<le> 0x20) \<or> c = 0x85 \<or> c = 0xA0 \<or>
     c = 0x1680 \<or> (0x2000 \<le> c \<and> c \<le> 0x200A) \<or> c = 0x2028 \<or> c = 0x2029 \<or>
     c = 0x202F \<or> c = 0x205F \<or> c = 0x3000"

definition decimal_zeros :: "nat list" where
  \<comment> \<open>the code points of the digit zero of every run of ten decimal digits (general
      category Nd, Unicode 14.0, the table of CPython 3.11): the class \<open>\d\<close>\<close>
  "decimal_zeros =
     [0x30, 0x660, 0x6F0, 0x7C0, 0x966, 0x9E6, 0xA66, 0xAE6, 0xB66, 0xBE6, 0xC66, 0xCE6,
      0xD66, 0xDE6, 0xE50, 0xED0, 0xF20, 0x1040, 0x1090, 0x17E0, 0x1810, 0x1946, 0x19D0,
      0x1A80, 0x1A90, 0x1B50, 0x1BB0, 0x1C40, 0x1C50, 0xA620, 0xA8D0, 0xA900, 0xA9D0,
      0xA9F0, 0xAA50, 0xABF0, 0xFF10, 0x104A0, 0x10D30, 0x11066, 0x110F0, 0x11136,
      0x111D0, 0x112F0, 0x11450, 0x114D0, 0x11650, 0x116C0, 0x11730, 0x118E0, 0x11950,
      0x11C50, 0x11D50, 0x11DA0, 0x16A60, 0x16AC0, 0x16B50, 0x1D7CE, 0x1D7D8, 0x1D7E2,
      0x1D7EC, 0x1D7F6, 0x1E140, 0x1E2F0, 0x1E950, 0x1FBF0]"

definition digit_value :: "nat \<Rightarrow> nat option" where
  "digit_value c =
     (case find (\<lambda>z. z \<le> c \<and> c < z + 10) decimal_zeros of
        None \<Rightarrow> None
      | Some z \<Rightarrow> Some (c - z))"

definition isdigit :: "nat \<Rightarrow> bool" where
  "isdigit c \<longleftrightarrow> digit_value c \<noteq> None"

definition py_int :: "str \<Rightarrow> nat" where
  \<comment> \<open>\<open>int(s)\<close> for a string of decimal digits; the program applies it to groups
      matched by \<open>\d\<close> only, where it cannot raise\<close>
  "py_int s = foldl (\<lambda>n c. 10 * n + (case digit_value c of None \<Rightarrow> 0 | Some d \<Rightarrow> d)) 0 s"

fun decimal :: "nat \<Rightarrow> str" where
  \<comment> \<open>\<open>str(n)\<close>\<close>
  "decimal n = (if n < 10 then [0x30 + n] else decimal (n div 10) @ [0x30 + n mod 10])"

declare decimal.simps [simp del]

definition format_02d :: "nat \<Rightarrow> str" where
  \<comment> \<open>\<open>f"{n:02d}"\<close>, also \<open>%m\<close>, \<open>%d\<close>, \<open>%H\<close>, \<open>%M\<close> of \<open>strftime\<close>\<close>
  "format_02d n = (if n < 10 then 0x30 # decimal n else decimal n)"

fun startswith :: "str \<Rightarrow> str \<Rightarrow> bool" where
  "startswith s [] = True"
| "startswith [] (p # ps) = False"
| "startswith (c # cs) (p # ps) = (c = p \<and> startswith cs ps)"

fun contains :: "str \<Rightarrow> str \<Rightarrow> bool" where
  \<comment> \<open>\<open>needle in s\<close>\<close>
  "contains [] needle = (needle = [])"
| "contains (c # cs) needle = (startswith (c # cs) needle \<or> contains cs needle)"

definition strip_chars :: "(nat \<Rightarrow> bool) \<Rightarrow> str \<Rightarrow> str" where
  \<comment> \<open>\<open>s.strip(chars)\<close>, the set of characters given as a predicate\<close>
  "strip_chars p s = rev (dropWhile p (rev (dropWhile p s)))"

definition strip :: "str \<Rightarrow> str" where
  \<comment> \<open>\<open>s.strip()\<close>\<close>
  "strip s = strip_chars isspace s"

definition upper_char :: "nat \<Rightarrow> str" where
  \<comment> \<open>The uppercase form of one code point, exact on the eighteen code points whose
      uppercase form holds one of the letters A, E, H, M, O, W, Y, and on the ASCII
      letters. The program only asks whether \<open>text.upper()\<close> contains \<open>HOME\<close> or
      \<open>AWAY\<close>, and no other code point can contribute a letter to these.\<close>
  "upper_char c =
     (if 0x61 \<le> c \<and> c \<le> 0x7A then [c - 0x20]
      else if c = 0x1E96 then [0x48, 0x331]
      else if c = 0x1E98 then [0x57, 0x30A]
      else if c = 0x1E99 then [0x59, 0x30A]
      else if c = 0x1E9A then [0x41, 0x2BE]
      else [c])"

definition upper :: "str \<Rightarrow> str" where
  "upper s = concat (map upper_char s)"

function sub_spaces :: "str \<Rightarrow> str" where
  \<comment> \<open>\<open>re.sub(r"\s+", " ", s)\<close>: every maximal run of whitespace becomes one space\<close>
  "sub_spaces [] = []"
| "sub_spaces (c # cs) =
     (if isspace c then 0x20 # sub_spaces (dropWhile isspace cs) else c # sub_spaces cs)"
  by pat_completeness auto
termination
  by (relation "measure length") (auto simp: length_dropWhile_le less_Suc_eq_le)

definition clean_text :: "str \<Rightarrow> str" where
  \<comment> \<open>\<open>_clean_text\<close>\<close>
  "clean_text s = strip (sub_spaces s)"

subsection \<open>Regular expressions\<close>

text \<open>
  The patterns of the program use character classes with a counted quantifier (greedy or
  lazy), concatenation, alternation, capturing groups and the anchor \<open>$\<close>. The matcher
  lists, for a pattern and an input position, every way of matching in the order in which
  a backtracking matcher tries them; the first one that lets the rest of the pattern
  succeed is the match \<open>re\<close> reports. A position is the remaining input.
\<close>

datatype rx =
    Chars "nat \<Rightarrow> bool" nat "nat option" bool
      \<comment> \<open>a class, its least and greatest number of repetitions, greedy or not\<close>
  | Eps
  | Seq rx rx
  | Alt rx rx
  | Group nat rx
  | Eos
      \<comment> \<open>\<open>$\<close>: the end of the string, or just before a newline that ends it\<close>

type_synonym groups = "(nat \<times> str) list"

primrec run :: "rx \<Rightarrow> str \<times> groups \<Rightarrow> (str \<times> groups) list" where
  "run (Chars p lo hi greedy) st =
     (let n = length (takeWhile p (fst st));
          m = (case hi of None \<Rightarrow> n | Some h \<Rightarrow> min h n);
          ks = [lo..<Suc m]
      in map (\<lambda>k. (drop k (fst st), snd st)) (if greedy then rev ks else ks))"
| "run Eps st = [st]"
| "run (Seq a b) st = concat (map (run b) (run a st))"
| "run (Alt a b) st = run a st @ run b st"
| "run (Group g a) st =
     map (\<lambda>r. (fst r, (g, take (length (fst st) - length (fst r)) (fst st)) # snd r))
         (run a st)"
| "run Eos st = (if fst st = [] \<or> fst st = [0x0A] then [st] else [])"

definition match_at :: "rx \<Rightarrow> str \<Rightarrow> (str \<times> groups) option" where
  \<comment> \<open>\<open>re.match\<close>: the match at the start of \<open>s\<close>, as the rest of the input after it
      and the groups\<close>
  "match_at r s = (case run r (s, []) of [] \<Rightarrow> None | x # _ \<Rightarrow> Some x)"

fun search_from :: "rx \<Rightarrow> nat \<Rightarrow> str \<Rightarrow> (nat \<times> str \<times> groups) option" where
  "search_from r i [] =
     (case match_at r [] of None \<Rightarrow> None | Some (rest, gs) \<Rightarrow> Some (i, rest, gs))"
| "search_from r i (c # cs) =
     (case match_at r (c # cs) of
        None \<Rightarrow> search_from r (Suc i) cs
      | Some (rest, gs) \<Rightarrow> Some (i, rest, gs))"

definition search :: "rx \<Rightarrow> str \<Rightarrow> (nat \<times> str \<times> groups) option" where
  \<comment> \<open>\<open>re.search\<close>: the leftmost match, as its start offset, the rest of the input
      after it and the groups\<close>
  "search r s = search_from r 0 s"

definition group :: "groups \<Rightarrow> nat \<Rightarrow> str" where
  \<comment> \<open>\<open>m.group(k)\<close> of a group that took part in the match\<close>
  "group gs k = (case map_of gs k of None \<Rightarrow> [] | Some t \<Rightarrow> t)"

function split_from :: "rx \<Rightarrow> str \<Rightarrow> str \<Rightarrow> str list" where
  "split_from r cur [] = [rev cur]"
| "split_from r cur (c # cs) =
     (case match_at r (c # cs) of
        None \<Rightarrow> split_from r (c # cur) cs
      | Some (rest, gs) \<Rightarrow>
          if length rest < length (c # cs) then rev cur # split_from r [] rest
          else split_from r (c # cur) cs)"
  by pat_completeness auto
termination
  by (relation "measure (\<lambda>(r, cur, s). length s)") auto

definition re_split :: "rx \<Rightarrow> str \<Rightarrow> str list" where
  \<comment> \<open>\<open>re.split\<close> for a pattern without groups whose matches are never empty (the two
      patterns the program splits on)\<close>
  "re_split r s = split_from r [] s"

definition one :: "(nat \<Rightarrow> bool) \<Rightarrow> rx" where
  "one p = Chars p 1 (Some 1) True"

definition lit :: "str \<Rightarrow> rx" where
  "lit s = foldr (\<lambda>c r. Seq (one (\<lambda>x. x = c)) r) s Eps"

subsection \<open>Errors and dates\<close>

datatype error = ValueError | OverflowError | FetchError

record datetime =
  year :: int
  month :: int
  day :: int
  hour :: int
  minute :: int

definition is_leap :: "int \<Rightarrow> bool" where
  "is_leap y \<longleftrightarrow> y mod 4 = 0 \<and> (y mod 100 \<noteq> 0 \<or> y mod 400 = 0)"

definition days_in_month :: "int \<Rightarrow> int \<Rightarrow> int" where
  "days_in_month y m =
     (if m = 2 then (if is_leap y then 29 else 28)
      else if m = 4 \<or> m = 6 \<or> m = 9 \<or> m = 11 then 30 else 31)"

definition valid_date :: "int \<Rightarrow> int \<Rightarrow> int \<Rightarrow> bool" where
  "valid_date y m d \<longleftrightarrow>
     1 \<le> y \<and> y \<le> 9999 \<and> 1 \<le> m \<and> m \<le> 12 \<and> 1 \<le> d \<and> d \<le> days_in_month y m"

definition valid_datetime :: "datetime \<Rightarrow> bool" where
  \<comment> \<open>the values a \<open>datetime\<close> object can hold (seconds and below are always zero in
      this program and are left out)\<close>
  "valid_datetime t \<longleftrightarrow>
     valid_date (year t) (month t) (day t) \<and>
     0 \<le> hour t \<and> hour t \<le> 23 \<and> 0 \<le> minute t \<and> minute t \<le> 59"

definition new_datetime :: "int \<Rightarrow> int \<Rightarrow> int \<Rightarrow> int \<Rightarrow> int \<Rightarrow> error + datetime" where
  \<comment> \<open>the constructor \<open>datetime(y, m, d, hour, minute)\<close>, which raises ValueError on a
      field out of range\<close>
  "new_datetime y m d h mi =
     (if valid_date y m d \<and> 0 \<le> h \<and> h \<le> 23 \<and> 0 \<le> mi \<and> mi \<le> 59
      then Inr \<lparr>year = y, month = m, day = d, hour = h, minute = mi\<rparr>
      else Inl ValueError)"

definition new_date :: "int \<Rightarrow> int \<Rightarrow> int \<Rightarrow> error + datetime" where
  \<comment> \<open>\<open>datetime(y, m, d)\<close>\<close>
  "new_date y m d = new_datetime y m d 0 0"

definition next_day :: "datetime \<Rightarrow> error + datetime" where
  \<comment> \<open>one day later, OverflowError past 9999-12-31\<close>
  "next_day t =
     (if day t < days_in_month (year t) (month t) then Inr (t\<lparr>day := day t + 1\<rparr>)
      else if month t < 12 then Inr (t\<lparr>month := month t + 1, day := 1\<rparr>)
      else if year t < 9999 then Inr (t\<lparr>year := year t + 1, month := 1, day := 1\<rparr>)
      else Inl OverflowError)"

fun add_days :: "nat \<Rightarrow> datetime \<Rightarrow> error + datetime" where
  "add_days 0 t = Inr t"
| "add_days (Suc k) t = (case next_day t of Inl e \<Rightarrow> Inl e | Inr t' \<Rightarrow> add_days k t')"

definition add_minutes :: "datetime \<Rightarrow> nat \<Rightarrow> error + datetime" where
  \<comment> \<open>\<open>t + timedelta(minutes=n)\<close>\<close>
  "add_minutes t n =
     (let total = nat (hour t * 60 + minute t) + n
      in add_days (total div 1440)
           (t\<lparr>hour := int ((total mod 1440) div 60), minute := int (total mod 60)\<rparr>))"

definition strftime_date :: "datetime \<Rightarrow> str" where
  \<comment> \<open>\<open>t.strftime("%Y-%m-%d")\<close>; \<open>%Y\<close> is the year without padding, as the C
      library of the platform (glibc) prints it; from the year 1000 on this is the
      four-digit year on every platform\<close>
  "strftime_date t =
     decimal (nat (year t)) @ asc ''-'' @ format_02d (nat (month t)) @ asc ''-'' @
     format_02d (nat (day t))"

definition strftime_time :: "datetime \<Rightarrow> str" where
  \<comment> \<open>\<open>t.strftime("%H:%M")\<close>\<close>
  "strftime_time t = format_02d (nat (hour t)) @ asc '':'' @ format_02d (nat (minute t))"

definition in_range :: "nat \<Rightarrow> nat \<Rightarrow> nat \<Rightarrow> bool" where
  \<comment> \<open>a class \<open>[a-b]\<close>\<close>
  "in_range a b c \<longleftrightarrow> a \<le> c \<and> c \<le> b"

text \<open>
  The patterns of the directives of \<open>_strptime\<close>:
  \<open>%Y\<close> is \<open>\d\d\d\d\<close>, \<open>%m\<close> is \<open>1[0-2]|0[1-9]|[1-9]\<close>,
  \<open>%d\<close> is \<open>3[0-1]|[1-2]\d|0[1-9]|[1-9]| [1-9]\<close>,
  \<open>%H\<close> is \<open>2[0-3]|[0-1]\d|\d\<close> and \<open>%M\<close> is \<open>[0-5]\d|\d\<close>.
\<close>

definition rx_Y :: rx where
  "rx_Y = Chars isdigit 4 (Some 4) True"

definition rx_m :: rx where
  "rx_m =
     Alt (Seq (lit (asc ''1'')) (one (in_range 0x30 0x32)))
    (Alt (Seq (lit (asc ''0'')) (one (in_range 0x31 0x39)))
         (one (in_range 0x31 0x39)))"

definition rx_d :: rx where
  "rx_d =
     Alt (Seq (lit (asc ''3'')) (one (in_range 0x30 0x31)))
    (Alt (Seq (one (in_range 0x31 0x32)) (one isdigit))
    (Alt (Seq (lit (asc ''0'')) (one (in_range 0x31 0x39)))
    (Alt (one (in_range 0x31 0x39))
         (Seq (lit (asc '' '')) (one (in_range 0x31 0x39))))))"

definition rx_H :: rx where
  "rx_H =
     Alt (Seq (lit (asc ''2'')) (one (in_range 0x30 0x33)))
    (Alt (Seq (one (in_range 0x30 0x31)) (one isdigit))
         (one isdigit))"

definition rx_M :: rx where
  "rx_M = Alt (Seq (one (in_range 0x30 0x35)) (one isdigit)) (one isdigit)"

definition strptime_rx :: rx where
  \<comment> \<open>the pattern that \<open>_strptime\<close> builds for the format \<open>%Y-%m-%d %H:%M\<close>: the
      directives as groups, the space of the format as \<open>\s+\<close>, the other characters
      as they are\<close>
  "strptime_rx =
     Seq (Group 1 rx_Y)
    (Seq (lit (asc ''-''))
    (Seq (Group 2 rx_m)
    (Seq (lit (asc ''-''))
    (Seq (Group 3 rx_d)
    (Seq (Chars isspace 1 None True)
    (Seq (Group 4 rx_H)
    (Seq (lit (asc '':''))
         (Group 5 rx_M))))))))"

definition strptime :: "str \<Rightarrow> error + datetime" where
  \<comment> \<open>\<open>datetime.strptime(s, "%Y-%m-%d %H:%M")\<close>: ValueError when the pattern does
      not match at the start, when input remains after the match, and when the fields
      are not a date\<close>
  "strptime s =
     (case match_at strptime_rx s of
        None \<Rightarrow> Inl ValueError
      | Some (rest, gs) \<Rightarrow>
          if rest \<noteq> [] then Inl ValueError
          else new_datetime (int (py_int (group gs 1))) (int (py_int (group gs 2)))
                 (int (py_int (group gs 3))) (int (py_int (group gs 4)))
                 (int (py_int (group gs 5))))"

subsection \<open>Game and its CSV row\<close>

record game =
  home_away :: str
  opponent :: str
  venue :: str
  date :: datetime
  start_time :: "str option"

definition TIMEDELTA_MINUTES :: nat where
  "TIMEDELTA_MINUTES = 150"

definition undecided_suffix :: str where
  \<comment> \<open>a space, the reference mark U+203B and the four characters that read "time
      undecided"\<close>
  "undecided_suffix = [0x20, 0x203B, 0x6642, 0x523B, 0x672A, 0x5B9A]"

definition to_row :: "game \<Rightarrow> error + str list" where
  \<comment> \<open>\<open>Game.to_row\<close>; \<open>not self.start_time\<close> holds for None and for the empty string\<close>
  "to_row g =
     (let subject = home_away g @ asc '' vs '' @ opponent g @ asc ''@'' @ venue g
      in case start_time g of
           None \<Rightarrow>
             Inr [subject @ undecided_suffix, strftime_date (date g), [],
                  strftime_date (date g), [], asc ''True'', venue g]
         | Some t \<Rightarrow>
             if t = [] then
               Inr [subject @ undecided_suffix, strftime_date (date g), [],
                    strftime_date (date g), [], asc ''True'', venue g]
             else
               (case strptime (strftime_date (date g) @ asc '' '' @ t) of
                  Inl e \<Rightarrow> Inl e
                | Inr start_dt \<Rightarrow>
                    (case add_minutes start_dt TIMEDELTA_MINUTES of
                       Inl e \<Rightarrow> Inl e
                     | Inr end_dt \<Rightarrow>
                         Inr [subject, strftime_date (date g), strftime_time start_dt,
                              strftime_date start_dt, strftime_time end_dt, asc ''False'',
                              venue g])))"

subsection \<open>The months of a range\<close>

text \<open>
  \<open>month_iter\<close> is a generator around a \<open>while\<close> loop. The loop is modelled with the
  list of the pairs yielded so far; \<open>None\<close> stands for a loop that does not end.
\<close>

partial_function (option) month_loop ::
  "int \<Rightarrow> int \<Rightarrow> datetime \<Rightarrow> (int \<times> int) list \<Rightarrow> (int \<times> int) list option" where
  "month_loop y m endd acc =
     (if y < year endd \<or> (y = year endd \<and> m \<le> month endd)
      then (if m = 12 then month_loop (y + 1) 1 endd (acc @ [(y, m)])
            else month_loop y (m + 1) endd (acc @ [(y, m)]))
      else Some acc)"

definition month_iter :: "datetime \<Rightarrow> datetime \<Rightarrow> (int \<times> int) list option" where
  "month_iter start endd = month_loop (year start) (month start) endd []"

subsection \<open>Time of day in a text\<close>

definition undecided_marker :: str where
  \<comment> \<open>the two characters U+672A U+5B9A, "undecided"\<close>
  "undecided_marker = [0x672A, 0x5B9A]"

definition time_rx :: rx where
  \<comment> \<open>\<open>(\d{1,2}):(\d{2})\<close>\<close>
  "time_rx =
     Seq (Group 1 (Chars isdigit 1 (Some 2) True))
    (Seq (lit (asc '':''))
         (Group 2 (Chars isdigit 2 (Some 2) True)))"

definition parse_time :: "str \<Rightarrow> str option" where
  "parse_time s =
     (if contains s undecided_marker then None
      else case search time_rx s of
             None \<Rightarrow> None
           | Some (i, rest, gs) \<Rightarrow>
               let hh = py_int (group gs 1); mm = py_int (group gs 2)
               in Some (format_02d hh @ asc '':'' @ format_02d mm))"

subsection \<open>Removing duplicates by identity key\<close>

type_synonym identity = "str \<times> str \<times> str"

definition identity_key :: "game \<Rightarrow> identity" where
  \<comment> \<open>\<open>(g.date.strftime("%Y-%m-%d"), g.opponent, g.venue)\<close>\<close>
  "identity_key g = (strftime_date (date g), opponent g, venue g)"

fun dict_set :: "('k \<times> 'v) list \<Rightarrow> 'k \<Rightarrow> 'v \<Rightarrow> ('k \<times> 'v) list" where
  \<comment> \<open>\<open>keyed[key] = g\<close> on a dictionary, which keeps its keys in the order of their
      first insertion\<close>
  "dict_set [] k v = [(k, v)]"
| "dict_set ((k', v') # kvs) k v =
     (if k' = k then (k', v) # kvs else (k', v') # dict_set kvs k v)"

definition dedup :: "game list \<Rightarrow> game list" where
  \<comment> \<open>the loop \<open>for g in games: keyed[key] = g\<close> and \<open>list(keyed.values())\<close>\<close>
  "dedup games = map snd (foldl (\<lambda>keyed g. dict_set keyed (identity_key g) g) [] games)"

fun collect :: "('a \<Rightarrow> error + 'b option) \<Rightarrow> 'a list \<Rightarrow> 'b list \<Rightarrow> error + 'b list" where
  \<comment> \<open>a \<open>for\<close> loop whose body raises (\<open>Inl\<close>), continues without a record
      (\<open>Inr None\<close>) or appends one record\<close>
  "collect f [] acc = Inr acc"
| "collect f (x # xs) acc =
     (case f x of
        Inl e \<Rightarrow> Inl e
      | Inr None \<Rightarrow> collect f xs acc
      | Inr (Some g) \<Rightarrow> collect f xs (acc @ [g]))"

subsection \<open>The structured pass\<close>

text \<open>
  A schedule entry is what \<open>select_one\<close> finds in one list item: for each of the five
  sub-elements, \<open>None\<close> when it is missing and otherwise its text
  \<open>get_text(" ", strip=True)\<close>. A page is the list of the entries and the list of the
  texts \<open>get_text(" ")\<close> of the nodes that the heuristic pass selects.
\<close>

record item =
  day_el :: "str option"
  opp_el :: "str option"
  venue_el :: "str option"
  time_el :: "str option"
  home_el :: "str option"

record page =
  items :: "item list"
  cards :: "str list"

definition HOME_tag :: str where "HOME_tag = asc ''[HOME]''"
definition AWAY_tag :: str where "AWAY_tag = asc ''[AWAY]''"

definition md_rx :: rx where
  \<comment> \<open>\<open>(\d{1,2})[./](\d{1,2})\<close>\<close>
  "md_rx =
     Seq (Group 1 (Chars isdigit 1 (Some 2) True))
    (Seq (one (\<lambda>c. c = 0x2E \<or> c = 0x2F))
         (Group 2 (Chars isdigit 1 (Some 2) True)))"

definition schedule_item :: "int \<Rightarrow> int \<Rightarrow> str list \<Rightarrow> item \<Rightarrow> error + game option" where
  \<comment> \<open>the body of the loop of \<open>_parse_schedule_list\<close>\<close>
  "schedule_item yr mon home_keywords it =
     (case (day_el it, opp_el it, venue_el it) of
        (Some day_text, Some opp_text, Some venue_text) \<Rightarrow>
          (case search md_rx (clean_text day_text) of
             None \<Rightarrow> Inr None
           | Some (i, rest, gs) \<Rightarrow>
               let mo = int (py_int (group gs 1)); d = int (py_int (group gs 2))
               in if mo \<noteq> mon then Inr None
                  else
                    (case new_date yr mo d of
                       Inl e \<Rightarrow> Inl e
                     | Inr dt \<Rightarrow>
                         let venue = clean_text venue_text;
                             opponent = clean_text opp_text;
                             time_raw = (case time_el it of None \<Rightarrow> [] | Some t \<Rightarrow> clean_text t);
                             start_time = parse_time time_raw;
                             home_tag =
                               (case home_el it of None \<Rightarrow> [] | Some t \<Rightarrow> upper (clean_text t));
                             home_away =
                               (if contains home_tag (asc ''HOME'') then HOME_tag else AWAY_tag);
                             home_away =
                               (if home_tag = [] \<and> list_ex (\<lambda>keyword. contains venue keyword) home_keywords
                                then HOME_tag else home_away)
                         in Inr (Some \<lparr>home_away = home_away, opponent = opponent,
                                       venue = venue, date = dt, start_time = start_time\<rparr>)))
      | _ \<Rightarrow> Inr None)"

definition parse_schedule_list :: "int \<Rightarrow> int \<Rightarrow> item list \<Rightarrow> str list \<Rightarrow> error + game list" where
  \<comment> \<open>\<open>_parse_schedule_list\<close>\<close>
  "parse_schedule_list yr mon its home_keywords =
     (case collect (schedule_item yr mon home_keywords) its [] of
        Inl e \<Rightarrow> Inl e
      | Inr games \<Rightarrow> Inr (dedup games))"

subsection \<open>The heuristic pass\<close>

definition ymd_rx :: rx where
  \<comment> \<open>\<open>(\d{4})[./-](\d{1,2})[./-](\d{1,2})\<close>\<close>
  "ymd_rx =
     Seq (Group 1 (Chars isdigit 4 (Some 4) True))
    (Seq (one (\<lambda>c. c = 0x2E \<or> c = 0x2F \<or> c = 0x2D))
    (Seq (Group 2 (Chars isdigit 1 (Some 2) True))
    (Seq (one (\<lambda>c. c = 0x2E \<or> c = 0x2F \<or> c = 0x2D))
         (Group 3 (Chars isdigit 1 (Some 2) True)))))"

definition letter_v :: "nat \<Rightarrow> bool" where
  \<comment> \<open>\<open>v\<close> under IGNORECASE\<close>
  "letter_v c \<longleftrightarrow> c = 0x76 \<or> c = 0x56"

definition letter_s :: "nat \<Rightarrow> bool" where
  \<comment> \<open>\<open>s\<close> under IGNORECASE, which also accepts the long s U+017F\<close>
  "letter_s c \<longleftrightarrow> c = 0x73 \<or> c = 0x53 \<or> c = 0x17F"

definition vs_rx :: rx where
  \<comment> \<open>\<open>vs\<close> with IGNORECASE\<close>
  "vs_rx = Seq (one letter_v) (one letter_s)"

definition vs_opponent_rx :: rx where
  \<comment> \<open>\<open>vs\s*([^\s@||]+)\<close> with IGNORECASE; the class excludes whitespace, \<open>@\<close>,
      \<open>|\<close> and the fullwidth bar U+FF5C\<close>
  "vs_opponent_rx =
     Seq vs_rx
    (Seq (Chars isspace 0 None True)
         (Group 1 (Chars (\<lambda>c. \<not> isspace c \<and> c \<noteq> 0x40 \<and> c \<noteq> 0x7C \<and> c \<noteq> 0xFF5C)
                         1 None True)))"

definition at_sign :: "nat \<Rightarrow> bool" where
  \<comment> \<open>\<open>[@@]\<close>: the commercial at and the fullwidth one, U+FF20\<close>
  "at_sign c \<longleftrightarrow> c = 0x40 \<or> c = 0xFF20"

definition venue_label :: str where
  \<comment> \<open>U+4F1A U+5834, "venue"\<close>
  "venue_label = [0x4F1A, 0x5834]"

definition separator_rx :: rx where
  \<comment> \<open>an at sign, or one of the labels U+4F1A U+5834 ("venue"), U+65E5 U+6642 ("date
      and time"), U+6642 U+9593 ("time")\<close>
  "separator_rx =
     Alt (one at_sign)
    (Alt (lit venue_label)
    (Alt (lit [0x65E5, 0x6642])
         (lit [0x6642, 0x9593])))"

definition dot :: "nat \<Rightarrow> bool" where
  \<comment> \<open>the class \<open>.\<close>: anything but a newline\<close>
  "dot c \<longleftrightarrow> c \<noteq> 0x0A"

definition at_venue_rx :: rx where
  \<comment> \<open>\<open>[@@]\s*([^\s].+?)(?:\s|$)\<close>\<close>
  "at_venue_rx =
     Seq (one at_sign)
    (Seq (Chars isspace 0 None True)
    (Seq (Group 1 (Seq (one (\<lambda>c. \<not> isspace c)) (Chars dot 1 None False)))
         (Alt (one isspace) Eos)))"

definition label_venue_rx :: rx where
  \<comment> \<open>\<open>(L[::]\s*)(.+?)(?:\s|$)\<close> with L the venue label; the class holds the colon
      and the fullwidth colon U+FF1A\<close>
  "label_venue_rx =
     Seq (Group 1 (Seq (lit venue_label)
                  (Seq (one (\<lambda>c. c = 0x3A \<or> c = 0xFF1A)) (Chars isspace 0 None True))))
    (Seq (Group 2 (Chars dot 1 None False))
         (Alt (one isspace) Eos))"

definition opponent_trim :: "nat \<Rightarrow> bool" where
  \<comment> \<open>the characters of \<open>strip(" -||::")\<close>, with the fullwidth bar and colon\<close>
  "opponent_trim c \<longleftrightarrow>
     c = 0x20 \<or> c = 0x2D \<or> c = 0x7C \<or> c = 0xFF5C \<or> c = 0x3A \<or> c = 0xFF1A"

definition venue_trim :: "nat \<Rightarrow> bool" where
  \<comment> \<open>the characters of the \<open>strip\<close> applied to a venue: space, the ideographic comma
      U+3001, the fullwidth comma U+FF0C, comma, closing parenthesis, bar, the fullwidth
      closing parenthesis U+FF09, closing bracket\<close>
  "venue_trim c \<longleftrightarrow>
     c = 0x20 \<or> c = 0x3001 \<or> c = 0xFF0C \<or> c = 0x2C \<or> c = 0x29 \<or> c = 0x7C \<or>
     c = 0xFF09 \<or> c = 0x5D"

definition card_date_digits :: "int \<Rightarrow> str \<Rightarrow> (int \<times> int \<times> int) option" where
  \<comment> \<open>the numbers \<open>(y, mo, d)\<close> of the date found in a node: those of the first full
      date \<open>YYYY-M-D\<close>, otherwise the target year and those of the first \<open>M.D\<close> or
      \<open>M/D\<close>, otherwise nothing\<close>
  "card_date_digits yr text =
     (case search ymd_rx text of
        Some (i, rest, gs) \<Rightarrow>
          Some (int (py_int (group gs 1)), int (py_int (group gs 2)), int (py_int (group gs 3)))
      | None \<Rightarrow>
          (case search md_rx text of
             Some (i, rest, gs) \<Rightarrow>
               Some (yr, int (py_int (group gs 1)), int (py_int (group gs 2)))
           | None \<Rightarrow> None))"

definition card_date :: "int \<Rightarrow> str \<Rightarrow> (error + datetime) option" where
  \<comment> \<open>the date of a node: \<open>None\<close> when neither pattern is found, otherwise the
      result of the constructor \<open>datetime(y, mo, d)\<close>\<close>
  "card_date yr text =
     (case card_date_digits yr text of
        None \<Rightarrow> None
      | Some (y, mo, d) \<Rightarrow> Some (new_date y mo d))"

definition card_opponent :: "str \<Rightarrow> str" where
  \<comment> \<open>the opponent of a node; the empty string stands for both \<open>None\<close> and \<open>""\<close>,
      which \<open>not opponent\<close> treats alike\<close>
  "card_opponent text =
     (let opponent =
            (case search vs_opponent_rx text of
               None \<Rightarrow> []
             | Some (i, rest, gs) \<Rightarrow> group gs 1)
      in if opponent \<noteq> [] then opponent
         else
           (case re_split vs_rx text of
              p0 # tail # others \<Rightarrow>
                (case re_split separator_rx tail of
                   [] \<Rightarrow> []
                 | head # pieces \<Rightarrow> strip_chars opponent_trim (clean_text head))
            | _ \<Rightarrow> []))"

definition card_venue :: "str list \<Rightarrow> str \<Rightarrow> str" where
  \<comment> \<open>the venue of a node; the empty string stands for both \<open>None\<close> and \<open>""\<close>\<close>
  "card_venue known_arenas text =
     (let venue =
            (case search at_venue_rx text of
               None \<Rightarrow> []
             | Some (i, rest, gs) \<Rightarrow> strip_chars venue_trim (group gs 1));
          venue =
            (if venue \<noteq> [] then venue
             else case search label_venue_rx text of
                    None \<Rightarrow> []
                  | Some (i, rest, gs) \<Rightarrow> strip_chars venue_trim (group gs 2))
      in if venue \<noteq> [] then venue
         else (case find (\<lambda>a. contains text a) known_arenas of None \<Rightarrow> [] | Some a \<Rightarrow> a))"

definition card_home_away :: "str list \<Rightarrow> str \<Rightarrow> str \<Rightarrow> str" where
  "card_home_away home_arenas ven text =
     (let home_away = AWAY_tag;
          home_away = (if list_ex (\<lambda>x. contains ven x) home_arenas then HOME_tag else home_away);
          home_away = (if contains (upper text) (asc ''HOME'') then HOME_tag else home_away);
          home_away = (if contains (upper text) (asc ''AWAY'') then AWAY_tag else home_away)
      in home_away)"

definition heuristic_card ::
  "(str \<Rightarrow> bool) \<Rightarrow> str list \<Rightarrow> str list \<Rightarrow> int \<Rightarrow> str \<Rightarrow> error + game option" where
  \<comment> \<open>the body of the loop over the candidate nodes, the same in both parsers up to the
      marker test \<open>relevant\<close> and the two lists of arenas\<close>
  "heuristic_card relevant known_arenas home_arenas yr raw =
     (let text = clean_text raw
      in if text = [] then Inr None
         else if \<not> relevant text then Inr None
         else
           (case card_date yr text of
              None \<Rightarrow> Inr None
            | Some (Inl e) \<Rightarrow> Inl e
            | Some (Inr dt) \<Rightarrow>
                let opponent = card_opponent text
                in if opponent = [] then Inr None
                   else
                     let venue = card_venue known_arenas text
                     in if venue = [] then Inr None
                        else
                          Inr (Some \<lparr>home_away = card_home_away home_arenas venue text,
                                     opponent = opponent, venue = venue, date = dt,
                                     start_time = parse_time text\<rparr>)))"

definition heuristic_pass ::
  "(str \<Rightarrow> bool) \<Rightarrow> str list \<Rightarrow> str list \<Rightarrow> int \<Rightarrow> str list \<Rightarrow> error + game list" where
  \<comment> \<open>the loop over the candidate nodes and the removal of duplicates after it\<close>
  "heuristic_pass relevant known_arenas home_arenas yr texts =
     (case collect (heuristic_card relevant known_arenas home_arenas yr) texts [] of
        Inl e \<Rightarrow> Inl e
      | Inr games \<Rightarrow> Inr (dedup games))"

definition TOYOTA_ARENA_TOKYO :: str where
  "TOYOTA_ARENA_TOKYO = asc ''TOYOTA ARENA TOKYO''"

definition arena_katakana :: str where
  \<comment> \<open>the word "arena" in katakana, U+30A2 U+30EA U+30FC U+30CA\<close>
  "arena_katakana = [0x30A2, 0x30EA, 0x30FC, 0x30CA]"

definition alvark_relevant :: "str \<Rightarrow> bool" where
  \<comment> \<open>the node mentions \<open>vs\<close>, the team name "Alvark Tokyo" in Japanese, or "Tokyo"\<close>
  "alvark_relevant text \<longleftrightarrow>
     contains text (asc ''vs'') \<or>
     contains text [0x30A2, 0x30EB, 0x30D0, 0x30EB, 0x30AF, 0x6771, 0x4EAC] \<or>
     contains text [0x6771, 0x4EAC]"

definition alvark_arenas :: "str list" where
  "alvark_arenas =
     [TOYOTA_ARENA_TOKYO,
      [0x304A, 0x304A, 0x304D, 0x306B] @ arena_katakana @ [0x821E, 0x6D32],
      asc ''CNA'' @ arena_katakana,
      [0x30BC, 0x30D3, 0x30AA] @ arena_katakana,
      asc ''IG'' @ arena_katakana]"

definition aoyama_hall :: str where
  "aoyama_hall = [0x9752, 0x5C71, 0x5B66, 0x9662, 0x8A18, 0x5FF5, 0x9928]"

definition higashin_arena :: str where
  "higashin_arena = [0x3072, 0x304C, 0x3057, 0x3093] @ arena_katakana"

definition sunrockers_relevant :: "str \<Rightarrow> bool" where
  \<comment> \<open>the node mentions \<open>vs\<close> or the team name "Sunrockers" in katakana\<close>
  "sunrockers_relevant text \<longleftrightarrow>
     contains text (asc ''vs'') \<or>
     contains text [0x30B5, 0x30F3, 0x30ED, 0x30C3, 0x30AB, 0x30FC, 0x30BA]"

definition sunrockers_arenas :: "str list" where
  "sunrockers_arenas =
     [aoyama_hall,
      higashin_arena,
      [0x56FD, 0x7ACB, 0x4EE3, 0x3005, 0x6728, 0x7AF6, 0x6280, 0x5834, 0x20,
       0x7B2C, 0x4E8C, 0x4F53, 0x80B2, 0x9928],
      [0x6A2A, 0x6D5C] @ asc ''BUNTAI'',
      asc ''IG'' @ arena_katakana]"

definition parse_alvark_month :: "int \<Rightarrow> int \<Rightarrow> page \<Rightarrow> error + game list" where
  "parse_alvark_month yr mon pg =
     (case parse_schedule_list yr mon (items pg) [TOYOTA_ARENA_TOKYO] of
        Inl e \<Rightarrow> Inl e
      | Inr games \<Rightarrow>
          if games \<noteq> [] then Inr games
          else heuristic_pass alvark_relevant alvark_arenas [TOYOTA_ARENA_TOKYO] yr (cards pg))"

definition parse_sunrockers_month :: "int \<Rightarrow> int \<Rightarrow> page \<Rightarrow> error + game list" where
  "parse_sunrockers_month yr mon pg =
     (case parse_schedule_list yr mon (items pg) [aoyama_hall, higashin_arena] of
        Inl e \<Rightarrow> Inl e
      | Inr games \<Rightarrow>
          if games \<noteq> [] then Inr games
          else heuristic_pass sunrockers_relevant sunrockers_arenas [aoyama_hall, higashin_arena]
                 yr (cards pg))"

subsection \<open>Scraping a range of months\<close>

type_synonym fetcher = "str \<Rightarrow> int \<Rightarrow> int \<Rightarrow> error + page"

definition sort_key_of :: "game \<Rightarrow> (int \<times> int \<times> int \<times> int \<times> int) \<times> str \<times> str" where
  \<comment> \<open>\<open>lambda g: (g.date, g.start_time or "23:59", g.venue)\<close>\<close>
  "sort_key_of g =
     ((year (date g), month (date g), day (date g), hour (date g), minute (date g)),
      (case start_time g of None \<Rightarrow> asc ''23:59'' | Some t \<Rightarrow> if t = [] then asc ''23:59'' else t),
      venue g)"

definition sort_games :: "game list \<Rightarrow> game list" where
  \<comment> \<open>\<open>all_games.sort(key=...)\<close>, a stable sort\<close>
  "sort_games gs = sort_key sort_key_of gs"

definition month_games :: "fetcher \<Rightarrow> str \<Rightarrow> int \<Rightarrow> int \<Rightarrow> error + game list" where
  \<comment> \<open>the body of the loop of \<open>scrape\<close>: fetch the page of one month and parse it\<close>
  "month_games fetch team y m =
     (case fetch team y m of
        Inl e \<Rightarrow> Inl e
      | Inr html \<Rightarrow>
          if team = asc ''alvark'' then parse_alvark_month y m html
          else parse_sunrockers_month y m html)"

fun scrape_months :: "fetcher \<Rightarrow> str \<Rightarrow> (int \<times> int) list \<Rightarrow> game list \<Rightarrow> error + game list" where
  \<comment> \<open>the loop of \<open>scrape\<close> over the months, \<open>all_games\<close> as accumulator\<close>
  "scrape_months fetch team [] all_games = Inr all_games"
| "scrape_months fetch team ((y, m) # rest) all_games =
     (case month_games fetch team y m of
        Inl e \<Rightarrow> Inl e
      | Inr games \<Rightarrow> scrape_months fetch team rest (all_games @ games))"

definition scrape :: "fetcher \<Rightarrow> str \<Rightarrow> datetime \<Rightarrow> datetime \<Rightarrow> (error + game list) option" where
  \<comment> \<open>\<open>scrape\<close> after the two \<open>strptime\<close> calls on its arguments: \<open>start\<close> and
      \<open>endd\<close> are their results. \<open>fetch\<close> stands for \<open>fetch_month\<close> and the parsing of
      the page by BeautifulSoup. \<open>None\<close>: the loop over the months does not end.\<close>
  "scrape fetch team start endd =
     (case month_iter start endd of
        None \<Rightarrow> None
      | Some months \<Rightarrow>
          Some (case scrape_months fetch team months [] of
                  Inl e \<Rightarrow> Inl e
                | Inr all_games \<Rightarrow> Inr (sort_games all_games)))"

subsection \<open>Comparing two CSV files\<close>

definition GOOGLE_HEADERS :: "str list" where
  "GOOGLE_HEADERS =
     [asc ''Subject'', asc ''Start Date'', asc ''Start Time'', asc ''End Date'',
      asc ''End Time'', asc ''All Day Event'', asc ''Location'']"

definition read_csv :: "str list list \<Rightarrow> error + str list list" where
  \<comment> \<open>\<open>read_csv\<close> on the rows that \<open>csv.reader\<close> yields for the file; an empty file
      has the header \<open>[]\<close>\<close>
  "read_csv file_rows =
     (let headers = (case file_rows of [] \<Rightarrow> [] | h # _ \<Rightarrow> h)
      in if map strip headers \<noteq> GOOGLE_HEADERS then Inl ValueError
         else Inr (map (map strip) (tl file_rows)))"

datatype diff =
    Row_differs nat "str list" "str list"
      \<comment> \<open>the message \<open>Row n differs\<close> with the actual and the expected row\<close>
  | Length_differs nat nat
      \<comment> \<open>the message \<open>Length differs\<close> with the two lengths\<close>

fun diff_rows :: "nat \<Rightarrow> str list list \<Rightarrow> str list list \<Rightarrow> diff list \<Rightarrow> diff list" where
  \<comment> \<open>the loop \<open>for i in range(n)\<close> with \<open>n\<close> the shorter length, from index \<open>i\<close> on,
      the two lists being the rows from \<open>i\<close> on\<close>
  "diff_rows i (a # act) (e # expd) diffs =
     (if a \<noteq> e then
        (let diffs = diffs @ [Row_differs (i + 2) a e]
         in if length diffs \<ge> 10 then diffs else diff_rows (Suc i) act expd diffs)
      else diff_rows (Suc i) act expd diffs)"
| "diff_rows i act expd diffs = diffs"

definition compare_rows :: "str list list \<Rightarrow> str list list \<Rightarrow> bool \<times> diff list" where
  \<comment> \<open>\<open>validate_csv\<close> after the two files are read\<close>
  "compare_rows act expd =
     (let ok = (act = expd)
      in if \<not> ok then
           (let diffs = diff_rows 0 act expd [];
                diffs = (if length act \<noteq> length expd
                         then diffs @ [Length_differs (length act) (length expd)] else diffs)
            in (ok, diffs))
         else (ok, []))"

definition validate_csv :: "str list list \<Rightarrow> str list list \<Rightarrow> error + bool \<times> diff list" where
  "validate_csv actual expected =
     (case read_csv actual of
        Inl e \<Rightarrow> Inl e
      | Inr act \<Rightarrow>
          (case read_csv expected of
             Inl e \<Rightarrow> Inl e
           | Inr expd \<Rightarrow> Inr (compare_rows act expd)))"

definition differing_rows :: "str list list \<Rightarrow> str list list \<Rightarrow> nat list" where
  \<comment> \<open>the indices, in ascending order, at which both lists have a row and the two rows
      differ\<close>
  "differing_rows act expd =
     filter (\<lambda>i. act ! i \<noteq> expd ! i) [0..<min (length act) (length expd)]"

subsection \<open>Reading the time pattern\<close>

definition time_match_at :: "str \<Rightarrow> nat \<Rightarrow> str \<Rightarrow> str \<Rightarrow> bool" where
  \<comment> \<open>at offset \<open>i\<close> the text reads one or two digits \<open>h\<close>, a colon and two digits
      \<open>m\<close>: the pattern \<open>(\d{1,2}):(\d{2})\<close> matches at \<open>i\<close> with these groups\<close>
  "time_match_at s i h m \<longleftrightarrow>
     i \<le> length s \<and> (length h = 1 \<or> length h = 2) \<and> length m = 2 \<and>
     list_all isdigit h \<and> list_all isdigit m \<and>
     take (length h + 3) (drop i s) = h @ [0x3A] @ m"

subsection \<open>Nodes with an ill-formed date\<close>



subsection \<open>The order of two games\<close>

definition instant :: "datetime \<Rightarrow> int \<times> int \<times> int \<times> int \<times> int" where
  \<comment> \<open>the fields of a \<open>datetime\<close> in the order in which two of them are compared\<close>
  "instant t = (year t, month t, day t, hour t, minute t)"

definition effective_start :: "game \<Rightarrow> str" where
  \<comment> \<open>the start time as the sort reads it: the literal \<open>23:59\<close> for a game whose
      start time is absent or empty\<close>
  "effective_start g =
     (case start_time g of
        None \<Rightarrow> asc ''23:59''
      | Some t \<Rightarrow> if t = [] then asc ''23:59'' else t)"

subsection \<open>Counting months\<close>

text \<open>
  The months of the calendar, numbered through the years: month \<open>m\<close> of year \<open>y\<close> has
  the index \<open>12 * y + (m - 1)\<close>. The properties of \<open>month_iter\<close> are stated with it.
\<close>

definition month_index :: "int \<Rightarrow> int \<Rightarrow> int" where
  "month_index y m = 12 * y + (m - 1)"

definition month_of_index :: "int \<Rightarrow> int \<times> int" where
  "month_of_index k = (k div 12, k mod 12 + 1)"

definition months_from :: "int \<Rightarrow> nat \<Rightarrow> (int \<times> int) list" where
  "months_from k n = map (\<lambda>i. month_of_index (k + int i)) [0..<n]"

subsection \<open>Example inputs\<close>

text \<open>
  A fetcher whose page has no schedule list and one node that carries a full date, the
  same page for every month asked; a fetcher that always fails; the game of that node.
\<close>

definition relisting_fetcher :: fetcher where
  "relisting_fetcher team y m =
     Inr \<lparr>items = [], cards = [asc ''vs Rival @Arena 2025.10.4 18:05'']\<rparr>"

definition failing_fetcher :: fetcher where
  "failing_fetcher team y m = Inl FetchError"

definition rival_game :: game where
  "rival_game =
     \<lparr>home_away = asc ''[AWAY]'', opponent = asc ''Rival'', venue = asc ''Arena'',
      date = \<lparr>year = 2025, month = 10, day = 4, hour = 0, minute = 0\<rparr>,
      start_time = Some (asc ''18:05'')\<rparr>"

section \<open>Verified properties\<close>

text \<open>The definitions that evaluate a concrete input, by topic.\<close>

lemmas string_simps =
  asc_def isspace_def decimal_zeros_def digit_value_def isdigit_def py_int_def decimal.simps
  format_02d_def strip_chars_def strip_def upper_char_def upper_def clean_text_def
  undecided_marker_def Let_def

lemmas matcher_simps =
  match_at_def search_def group_def re_split_def one_def lit_def time_rx_def parse_time_def

lemmas date_simps =
  is_leap_def days_in_month_def valid_date_def new_datetime_def new_date_def next_day_def
  add_minutes_def strftime_date_def strftime_time_def

lemmas row_simps =
  in_range_def rx_Y_def rx_m_def rx_d_def rx_H_def rx_M_def strptime_rx_def strptime_def
  TIMEDELTA_MINUTES_def undecided_suffix_def to_row_def

lemmas card_simps =
  HOME_tag_def AWAY_tag_def md_rx_def ymd_rx_def letter_v_def letter_s_def vs_rx_def
  vs_opponent_rx_def at_sign_def venue_label_def separator_rx_def dot_def at_venue_rx_def
  label_venue_rx_def opponent_trim_def venue_trim_def card_date_digits_def card_date_def
  card_opponent_def card_venue_def card_home_away_def heuristic_card_def
  TOYOTA_ARENA_TOKYO_def arena_katakana_def alvark_relevant_def alvark_arenas_def

subsection \<open>The months of a range\<close>

lemma month_of_index_inverse:
  assumes "1 \<le> m" "m \<le> 12"
  shows "month_of_index (month_index y m) = (y, m)"
proof -
  have "(12 * y + (m - 1)) div 12 = y" "(12 * y + (m - 1)) mod 12 = m - 1"
    using assms by simp_all
  then show ?thesis
    by (simp add: month_of_index_def month_index_def)
qed

lemma months_from_Suc: "months_from k (Suc n) = month_of_index k # months_from (k + 1) n"
proof -
  have "[0..<Suc n] = 0 # map Suc [0..<n]"
    by (simp add: upt_conv_Cons map_Suc_upt del: upt_Suc)
  then have "months_from k (Suc n)
      = month_of_index (k + int 0) # map (\<lambda>i. month_of_index (k + int (Suc i))) [0..<n]"
    unfolding months_from_def by (simp add: comp_def del: upt_Suc)
  also have "(\<lambda>i. month_of_index (k + int (Suc i))) = (\<lambda>i. month_of_index (k + 1 + int i))"
    by (rule ext) (simp add: algebra_simps)
  finally show ?thesis
    by (simp add: months_from_def)
qed

lemma month_loop_stop:
  assumes "\<not> (y < year endd \<or> (y = year endd \<and> m \<le> month endd))"
  shows "month_loop y m endd acc = Some acc"
  by (subst month_loop.simps, subst if_not_P [OF assms]) (rule refl)

lemma month_loop_december:
  assumes "y < year endd \<or> (y = year endd \<and> m \<le> month endd)" and "m = 12"
  shows "month_loop y m endd acc = month_loop (y + 1) 1 endd (acc @ [(y, m)])"
  by (subst month_loop.simps, subst if_P [OF assms(1)], subst if_P [OF assms(2)]) (rule refl)

lemma month_loop_next:
  assumes "y < year endd \<or> (y = year endd \<and> m \<le> month endd)" and "m \<noteq> 12"
  shows "month_loop y m endd acc = month_loop y (m + 1) endd (acc @ [(y, m)])"
  by (subst month_loop.simps, subst if_P [OF assms(1)], subst if_not_P [OF assms(2)]) (rule refl)

lemma month_loop_spec:
  assumes "1 \<le> m" "m \<le> 12" "1 \<le> month endd" "month endd \<le> 12"
    and "n = nat (month_index (year endd) (month endd) - month_index y m + 1)"
  shows "month_loop y m endd acc = Some (acc @ months_from (month_index y m) n)"
  using assms
proof (induction n arbitrary: y m acc)
  case 0
  have "12 * year endd + month endd < 12 * y + m"
    using 0(5) by (simp add: month_index_def)
  then have "\<not> (y < year endd \<or> (y = year endd \<and> m \<le> month endd))"
    using 0(1-4) by auto
  then show ?case
    by (simp add: month_loop_stop months_from_def)
next
  case (Suc n)
  have "12 * y + m \<le> 12 * year endd + month endd"
    using Suc.prems(5) by (simp add: month_index_def)
  then have go: "y < year endd \<or> (y = year endd \<and> m \<le> month endd)"
    using Suc.prems(1-4) by auto
  have first: "month_of_index (month_index y m) = (y, m)"
    using Suc.prems by (simp add: month_of_index_inverse)
  show ?case
  proof (cases "m = 12")
    case True
    have nxt: "month_index (y + 1) 1 = month_index y m + 1"
      using True by (simp add: month_index_def)
    have n: "n = nat (month_index (year endd) (month endd) - month_index (y + 1) 1 + 1)"
      using Suc.prems(5) nxt by simp
    have "month_loop (y + 1) 1 endd (acc @ [(y, m)])
            = Some ((acc @ [(y, m)]) @ months_from (month_index (y + 1) 1) n)"
      using Suc.prems(3,4) n by (intro Suc.IH) simp_all
    then show ?thesis
      unfolding month_loop_december [OF go True] months_from_Suc first nxt by simp
  next
    case False
    have nxt: "month_index y (m + 1) = month_index y m + 1"
      by (simp add: month_index_def)
    have n: "n = nat (month_index (year endd) (month endd) - month_index y (m + 1) + 1)"
      using Suc.prems(5) nxt by simp
    have "month_loop y (m + 1) endd (acc @ [(y, m)])
            = Some ((acc @ [(y, m)]) @ months_from (month_index y (m + 1)) n)"
      using Suc.prems(1-4) False n by (intro Suc.IH) simp_all
    then show ?thesis
      unfolding month_loop_next [OF go False] months_from_Suc first nxt by simp
  qed
qed

lemma month_of_index_strict_mono:
  assumes "a < b"
  shows "month_of_index a < month_of_index b"
proof (cases "a div 12 = b div 12")
  case True
  have "a = 12 * (a div 12) + a mod 12" "b = 12 * (b div 12) + b mod 12"
    by simp_all
  with True assms have "a mod 12 < b mod 12"
    by linarith
  with True show ?thesis
    by (simp add: month_of_index_def less_prod_def)
next
  case False
  moreover have "a div 12 \<le> b div 12"
    using assms by (simp add: zdiv_mono1)
  ultimately have "a div 12 < b div 12"
    by simp
  then show ?thesis
    by (simp add: month_of_index_def less_prod_def)
qed

lemma sorted_months_from: "sorted_wrt (<) (months_from k n)"
  by (simp add: months_from_def sorted_wrt_iff_nth_less month_of_index_strict_mono)

lemma length_months_from: "length (months_from k n) = n"
  by (simp add: months_from_def)

lemma nth_months_from: "i < n \<Longrightarrow> months_from k n ! i = month_of_index (k + int i)"
  by (simp add: months_from_def)

text \<open>
  Claim C6. For two year-month boundaries with start not after end, \<open>month_iter\<close> ends
  and yields exactly the calendar months from the start to the end, both included: their
  number is the number of months spanned, the \<open>i\<close>-th pair is the \<open>i\<close>-th month after the
  start (no gap, no repeat), the first is the start, the last is the end, and the pairs
  are strictly ascending. Being a function of the two boundaries, the result is the same
  on each call.
\<close>

theorem month_iter_inclusive_range:
  assumes "1 \<le> month start" "month start \<le> 12" "1 \<le> month endd" "month endd \<le> 12"
    and "year start < year endd \<or> (year start = year endd \<and> month start \<le> month endd)"
  shows "\<exists>ms. month_iter start endd = Some ms \<and>
           length ms = nat (12 * (year endd - year start) + (month endd - month start) + 1) \<and>
           (\<forall>i < length ms.
               ms ! i = month_of_index (month_index (year start) (month start) + int i)) \<and>
           ms ! 0 = (year start, month start) \<and>
           ms ! (length ms - 1) = (year endd, month endd) \<and>
           sorted_wrt (<) ms"
proof -
  define k where "k = month_index (year start) (month start)"
  define n where "n = nat (month_index (year endd) (month endd) - k + 1)"
  define ms where "ms = months_from k n"
  have run: "month_iter start endd = Some ms"
    unfolding month_iter_def ms_def n_def k_def
    using month_loop_spec [OF assms(1-4) refl, of "year start" "[]"] by simp
  have len: "length ms = n"
    by (simp add: ms_def length_months_from)
  have n: "n = nat (12 * (year endd - year start) + (month endd - month start) + 1)"
    by (simp add: n_def k_def month_index_def algebra_simps)
  have "12 * year start + month start \<le> 12 * year endd + month endd"
    using assms by auto
  then have pos: "0 < n"
    by (simp add: n_def k_def month_index_def)
  have nth: "ms ! i = month_of_index (k + int i)" if "i < n" for i
    using that by (simp add: ms_def nth_months_from)
  have first: "ms ! 0 = (year start, month start)"
    using nth [OF pos] assms(1,2) by (simp add: k_def month_of_index_inverse)
  have "k + int (n - 1) = month_index (year endd) (month endd)"
    using pos by (simp add: n_def)
  then have last: "ms ! (n - 1) = (year endd, month endd)"
    using nth [of "n - 1"] pos assms(3,4) by (simp add: month_of_index_inverse)
  have "sorted_wrt (<) ms"
    by (simp add: ms_def sorted_months_from)
  with run len n nth first last show ?thesis
    unfolding k_def by (intro exI [of _ ms]) simp
qed

theorem month_iter_inclusive_range_witness:
  "month_iter \<lparr>year = 2025, month = 11, day = 1, hour = 0, minute = 0\<rparr>
              \<lparr>year = 2026, month = 2, day = 1, hour = 0, minute = 0\<rparr>
     = Some [(2025, 11), (2025, 12), (2026, 1), (2026, 2)]"
proof -
  let ?s = "\<lparr>year = 2025, month = 11, day = 1, hour = 0, minute = 0\<rparr>"
  let ?e = "\<lparr>year = 2026, month = 2, day = 1, hour = 0, minute = 0\<rparr>"
  obtain ms where ms: "month_iter ?s ?e = Some ms" "length ms = 4"
    "\<forall>i < length ms. ms ! i = month_of_index (month_index 2025 11 + int i)"
    using month_iter_inclusive_range [of ?s ?e] by auto
  have "ms = map ((!) ms) [0..<length ms]"
    by (simp only: map_nth)
  also have "\<dots> = map (\<lambda>i. month_of_index (month_index 2025 11 + int i)) [0..<length ms]"
    using ms(3) by (intro map_cong refl) simp
  also have "\<dots> = [(2025, 11), (2025, 12), (2026, 1), (2026, 2)]"
    unfolding ms(2) by (simp add: month_of_index_def month_index_def upt_conv_Cons)
  finally show ?thesis
    using ms(1) by simp
qed


subsection \<open>A range whose start is after its end\<close>

text \<open>
  Claim C5, as the code has it. When the start is strictly after the end, \<open>month_iter\<close>
  yields nothing and does not fail, and \<open>scrape\<close> returns the empty list of games
  whatever the fetcher is: no page is fetched and no error is raised.
\<close>

theorem scrape_reversed_range:
  assumes "year endd < year start \<or> (year endd = year start \<and> month endd < month start)"
  shows "month_iter start endd = Some [] \<and> scrape fetch team start endd = Some (Inr [])"
proof -
  have "\<not> (year start < year endd \<or> (year start = year endd \<and> month start \<le> month endd))"
    using assms by auto
  then have "month_iter start endd = Some []"
    unfolding month_iter_def by (rule month_loop_stop)
  then show ?thesis
    by (simp add: scrape_def sort_games_def)
qed

theorem scrape_reversed_range_witness:
  "month_iter \<lparr>year = 2026, month = 1, day = 1, hour = 0, minute = 0\<rparr>
              \<lparr>year = 2025, month = 12, day = 1, hour = 0, minute = 0\<rparr> = Some [] \<and>
   scrape failing_fetcher (asc ''sunrockers'')
          \<lparr>year = 2026, month = 1, day = 1, hour = 0, minute = 0\<rparr>
          \<lparr>year = 2025, month = 12, day = 1, hour = 0, minute = 0\<rparr> = Some (Inr [])"
  using scrape_reversed_range
          [of "\<lparr>year = 2025, month = 12, day = 1, hour = 0, minute = 0\<rparr>"
              "\<lparr>year = 2026, month = 1, day = 1, hour = 0, minute = 0\<rparr>"
              failing_fetcher "asc ''sunrockers''"]
  by simp

text \<open>
  The claim as the specification states it asks for a failure. With the start in May 2025
  and the end in April 2025, and a fetcher that fails on every call, \<open>scrape\<close> returns
  normally with no games.
\<close>

theorem scrape_reversed_range_counterexample:
  "month_iter \<lparr>year = 2025, month = 5, day = 1, hour = 0, minute = 0\<rparr>
              \<lparr>year = 2025, month = 4, day = 1, hour = 0, minute = 0\<rparr> = Some [] \<and>
   scrape failing_fetcher (asc ''alvark'')
          \<lparr>year = 2025, month = 5, day = 1, hour = 0, minute = 0\<rparr>
          \<lparr>year = 2025, month = 4, day = 1, hour = 0, minute = 0\<rparr> = Some (Inr [])"
  by (simp add: scrape_def month_iter_def month_loop.simps sort_games_def)

subsection \<open>Merging the months\<close>

lemma heuristic_card_rival:
  "heuristic_card alvark_relevant alvark_arenas [TOYOTA_ARENA_TOKYO] 2025
     (asc ''vs Rival @Arena 2025.10.4 18:05'') = Inr (Some rival_game)"
  by (simp add: string_simps matcher_simps date_simps card_simps rival_game_def)

lemma month_games_relisting:
  "month_games relisting_fetcher (asc ''alvark'') 2025 m = Inr [rival_game]"
  by (simp add: month_games_def relisting_fetcher_def parse_alvark_month_def
      parse_schedule_list_def heuristic_pass_def heuristic_card_rival dedup_def)

lemma scrape_months_spec:
  "map (\<lambda>(y, m). month_games fetch team y m) months = map Inr results \<Longrightarrow>
   scrape_months fetch team months acc = Inr (acc @ concat results)"
proof (induction months arbitrary: results acc)
  case Nil
  then show ?case by simp
next
  case (Cons ym months)
  obtain y m where ym: "ym = (y, m)"
    by (cases ym)
  from Cons.prems obtain r rs where rs: "results = r # rs"
    by (cases results) auto
  with Cons.prems ym have "month_games fetch team y m = Inr r"
    and "map (\<lambda>(y, m). month_games fetch team y m) months = map Inr rs"
    by simp_all
  with Cons.IH [of rs "acc @ r"] show ?case
    by (simp add: ym rs)
qed

lemma month_iter_two:
  "month_iter \<lparr>year = 2025, month = 10, day = 1, hour = 0, minute = 0\<rparr>
              \<lparr>year = 2025, month = 11, day = 1, hour = 0, minute = 0\<rparr>
     = Some [(2025, 10), (2025, 11)]"
  by (simp add: month_iter_def month_loop.simps)

text \<open>
  Claim C3, as the code has it. \<open>scrape\<close> concatenates the results of the months and
  sorts them; it removes nothing. When every month is fetched and parsed, the output is
  the sorted concatenation, a permutation of it, so it has at most one game per identity
  key exactly when the concatenation has: two months that list the same fixture leave
  both records in the output.
\<close>

theorem scrape_keeps_every_record:
  assumes "month_iter start endd = Some months"
    and "map (\<lambda>(y, m). month_games fetch team y m) months = map Inr results"
  shows "scrape fetch team start endd = Some (Inr (sort_games (concat results))) \<and>
         mset (sort_games (concat results)) = mset (concat results) \<and>
         (distinct (map identity_key (sort_games (concat results)))
            \<longleftrightarrow> distinct (map identity_key (concat results)))"
proof -
  have "scrape_months fetch team months [] = Inr (concat results)"
    using scrape_months_spec [OF assms(2), of "[]"] by simp
  then have run: "scrape fetch team start endd = Some (Inr (sort_games (concat results)))"
    by (simp add: scrape_def assms(1))
  have perm: "mset (sort_games (concat results)) = mset (concat results)"
    by (simp add: sort_games_def)
  then have "mset (map identity_key (sort_games (concat results)))
               = mset (map identity_key (concat results))"
    by simp
  then have "distinct (map identity_key (sort_games (concat results)))
               \<longleftrightarrow> distinct (map identity_key (concat results))"
    by (rule mset_eq_imp_distinct_iff)
  with run perm show ?thesis by simp
qed

theorem scrape_keeps_every_record_witness:
  "scrape relisting_fetcher (asc ''alvark'')
      \<lparr>year = 2025, month = 10, day = 1, hour = 0, minute = 0\<rparr>
      \<lparr>year = 2025, month = 11, day = 1, hour = 0, minute = 0\<rparr>
     = Some (Inr (sort_games [rival_game, rival_game])) \<and>
   \<not> distinct (map identity_key (sort_games [rival_game, rival_game]))"
proof -
  have "map (\<lambda>(y, m). month_games relisting_fetcher (asc ''alvark'') y m) [(2025, 10), (2025, 11)]
          = map Inr [[rival_game], [rival_game]]"
    by (simp add: month_games_relisting)
  from scrape_keeps_every_record [OF month_iter_two this] show ?thesis
    by simp
qed

text \<open>
  The claim as the specification states it: one game per identity key in the output. The
  page of October 2025 and the page of November 2025 both carry the node
  \<open>vs Rival @Arena 2025.10.4 18:05\<close>; the output holds the game twice.
\<close>

theorem scrape_relisting_counterexample:
  "scrape relisting_fetcher (asc ''alvark'')
      \<lparr>year = 2025, month = 10, day = 1, hour = 0, minute = 0\<rparr>
      \<lparr>year = 2025, month = 11, day = 1, hour = 0, minute = 0\<rparr>
     = Some (Inr [rival_game, rival_game]) \<and>
   \<not> distinct (map identity_key [rival_game, rival_game])"
  by (simp add: scrape_def month_iter_two month_games_relisting sort_games_def)

subsection \<open>The order of the output\<close>

lemma sort_games_sorted: "sorted (map sort_key_of (sort_games gs))"
  by (simp add: sort_games_def)

lemma sort_games_mset: "mset (sort_games gs) = mset gs"
  by (simp add: sort_games_def)

lemma sort_games_stable:
  "filter (\<lambda>g. sort_key_of g = k) (sort_games gs) = filter (\<lambda>g. sort_key_of g = k) gs"
  by (simp add: sort_games_def sort_key_stable)

lemma triple_le_iff:
  fixes a a' :: "'a::linorder" and b b' :: "'b::linorder" and c c' :: "'c::linorder"
  shows "(a, b, c) \<le> (a', b', c') \<longleftrightarrow> a < a' \<or> a = a' \<and> (b < b' \<or> b = b' \<and> c \<le> c')"
  by (auto simp: less_eq_prod_def)

lemma sort_key_of_fields:
  "sort_key_of g = (instant (date g), effective_start g, venue g)"
  by (simp add: sort_key_of_def instant_def effective_start_def)

lemma sort_games_pairwise:
  assumes "i < j" "j < length (sort_games gs)"
  shows "instant (date (sort_games gs ! i)) < instant (date (sort_games gs ! j)) \<or>
         instant (date (sort_games gs ! i)) = instant (date (sort_games gs ! j)) \<and>
         (effective_start (sort_games gs ! i) < effective_start (sort_games gs ! j) \<or>
          effective_start (sort_games gs ! i) = effective_start (sort_games gs ! j) \<and>
          venue (sort_games gs ! i) \<le> venue (sort_games gs ! j))"
proof -
  have "sort_key_of (sort_games gs ! i) \<le> sort_key_of (sort_games gs ! j)"
    using sort_games_sorted [of gs] assms by (simp add: sorted_iff_nth_mono_less)
  then show ?thesis
    by (simp only: sort_key_of_fields triple_le_iff)
qed

lemma sort_games_stable_fields:
  "filter (\<lambda>g. instant (date g) = d \<and> effective_start g = t \<and> venue g = v) (sort_games gs)
     = filter (\<lambda>g. instant (date g) = d \<and> effective_start g = t \<and> venue g = v) gs"
  using sort_games_stable [of "(d, t, v)" gs] by (simp add: sort_key_of_fields)

lemma undecided_against_timed:
  assumes "i < length (sort_games gs)" "j < length (sort_games gs)"
    and "date (sort_games gs ! i) = date (sort_games gs ! j)"
    and "start_time (sort_games gs ! i) = None"
    and "start_time (sort_games gs ! j) = Some t" "t \<noteq> []"
  shows "(t < asc ''23:59'' \<longrightarrow> j < i) \<and>
         (asc ''23:59'' < t \<longrightarrow> i < j) \<and>
         (t = asc ''23:59'' \<and> venue (sort_games gs ! i) < venue (sort_games gs ! j) \<longrightarrow> i < j) \<and>
         (t = asc ''23:59'' \<and> venue (sort_games gs ! j) < venue (sort_games gs ! i) \<longrightarrow> j < i)"
proof -
  have ne: "i \<noteq> j"
    using assms(4,5) by auto
  have ei: "effective_start (sort_games gs ! i) = asc ''23:59''"
    using assms(4) by (simp add: effective_start_def)
  have ej: "effective_start (sort_games gs ! j) = t"
    using assms(5,6) by (simp add: effective_start_def)
  have fwd: "asc ''23:59'' < t \<or> asc ''23:59'' = t \<and> venue (sort_games gs ! i) \<le> venue (sort_games gs ! j)"
    if "i < j"
    using sort_games_pairwise [OF that assms(2)] assms(3) by (simp add: ei ej)
  have bwd: "t < asc ''23:59'' \<or> t = asc ''23:59'' \<and> venue (sort_games gs ! j) \<le> venue (sort_games gs ! i)"
    if "j < i"
    using sort_games_pairwise [OF that assms(1)] assms(3) by (simp add: ei ej)
  show ?thesis
    using ne fwd bwd by (metis linorder_neqE_nat not_less_iff_gr_or_eq leD)
qed

text \<open>
  Claim C4, as the code has it. The output is a permutation of the input, sorted by date,
  then by start time, then by venue, where an absent or empty start time counts as the
  string \<open>23:59\<close> and strings are compared by code points: of two games in the output,
  the earlier one has the smaller date, or the same date and the smaller start time, or
  the same date and start time and a venue that is not greater. This order is total, and
  games that agree in all three keep their input order (the sort is stable). Hence an
  undecided fixture comes after every timed fixture of its date whose start time is below
  \<open>23:59\<close> and before every one whose start time is above \<open>23:59\<close>; against a
  start time of exactly \<open>23:59\<close> the venue decides.
\<close>

theorem sort_games_by_key:
  "mset (sort_games gs) = mset gs \<and>
   (\<forall>i j. i < j \<and> j < length (sort_games gs) \<longrightarrow>
      instant (date (sort_games gs ! i)) < instant (date (sort_games gs ! j)) \<or>
      instant (date (sort_games gs ! i)) = instant (date (sort_games gs ! j)) \<and>
      (effective_start (sort_games gs ! i) < effective_start (sort_games gs ! j) \<or>
       effective_start (sort_games gs ! i) = effective_start (sort_games gs ! j) \<and>
       venue (sort_games gs ! i) \<le> venue (sort_games gs ! j))) \<and>
   (\<forall>d t v.
      filter (\<lambda>g. instant (date g) = d \<and> effective_start g = t \<and> venue g = v) (sort_games gs)
        = filter (\<lambda>g. instant (date g) = d \<and> effective_start g = t \<and> venue g = v) gs) \<and>
   (\<forall>i j t. i < length (sort_games gs) \<and> j < length (sort_games gs) \<and>
            date (sort_games gs ! i) = date (sort_games gs ! j) \<and>
            start_time (sort_games gs ! i) = None \<and>
            start_time (sort_games gs ! j) = Some t \<and> t \<noteq> []
      \<longrightarrow> (t < asc ''23:59'' \<longrightarrow> j < i) \<and>
          (asc ''23:59'' < t \<longrightarrow> i < j) \<and>
          (t = asc ''23:59'' \<and> venue (sort_games gs ! i) < venue (sort_games gs ! j) \<longrightarrow> i < j) \<and>
          (t = asc ''23:59'' \<and> venue (sort_games gs ! j) < venue (sort_games gs ! i) \<longrightarrow> j < i))"
proof (intro conjI allI impI)
  show "mset (sort_games gs) = mset gs"
    by (simp add: sort_games_def)
next
  fix i j
  assume "i < j \<and> j < length (sort_games gs)"
  then show "instant (date (sort_games gs ! i)) < instant (date (sort_games gs ! j)) \<or>
      instant (date (sort_games gs ! i)) = instant (date (sort_games gs ! j)) \<and>
      (effective_start (sort_games gs ! i) < effective_start (sort_games gs ! j) \<or>
       effective_start (sort_games gs ! i) = effective_start (sort_games gs ! j) \<and>
       venue (sort_games gs ! i) \<le> venue (sort_games gs ! j))"
    using sort_games_pairwise by blast
next
  fix d t v
  show "filter (\<lambda>g. instant (date g) = d \<and> effective_start g = t \<and> venue g = v) (sort_games gs)
        = filter (\<lambda>g. instant (date g) = d \<and> effective_start g = t \<and> venue g = v) gs"
    by (rule sort_games_stable_fields)
next
  fix i j t
  assume h: "i < length (sort_games gs) \<and> j < length (sort_games gs) \<and>
            date (sort_games gs ! i) = date (sort_games gs ! j) \<and>
            start_time (sort_games gs ! i) = None \<and>
            start_time (sort_games gs ! j) = Some t \<and> t \<noteq> []"
  then have all: "(t < asc ''23:59'' \<longrightarrow> j < i) \<and>
         (asc ''23:59'' < t \<longrightarrow> i < j) \<and>
         (t = asc ''23:59'' \<and> venue (sort_games gs ! i) < venue (sort_games gs ! j) \<longrightarrow> i < j) \<and>
         (t = asc ''23:59'' \<and> venue (sort_games gs ! j) < venue (sort_games gs ! i) \<longrightarrow> j < i)"
    by (intro undecided_against_timed) simp_all
  show "j < i" if "t < asc ''23:59''"
    using all that by blast
  show "i < j" if "asc ''23:59'' < t"
    using all that by blast
  show "i < j" if "t = asc ''23:59'' \<and> venue (sort_games gs ! i) < venue (sort_games gs ! j)"
    using all that by blast
  show "j < i" if "t = asc ''23:59'' \<and> venue (sort_games gs ! j) < venue (sort_games gs ! i)"
    using all that by blast
qed

theorem sort_games_by_key_witness:
  "sort_games
     [\<lparr>home_away = asc ''[HOME]'', opponent = asc ''Rival'', venue = asc ''A'',
       date = \<lparr>year = 2025, month = 10, day = 4, hour = 0, minute = 0\<rparr>,
       start_time = None\<rparr>, rival_game] ! 1
   = \<lparr>home_away = asc ''[HOME]'', opponent = asc ''Rival'', venue = asc ''A'',
      date = \<lparr>year = 2025, month = 10, day = 4, hour = 0, minute = 0\<rparr>,
      start_time = None\<rparr> \<and>
   sort_games
     [\<lparr>home_away = asc ''[HOME]'', opponent = asc ''Rival'', venue = asc ''A'',
       date = \<lparr>year = 2025, month = 10, day = 4, hour = 0, minute = 0\<rparr>,
       start_time = None\<rparr>, rival_game] ! 0 = rival_game \<and>
   asc ''18:05'' < asc ''23:59'' \<and> (0::nat) < 1"
  using sort_games_by_key
          [of "[\<lparr>home_away = asc ''[HOME]'', opponent = asc ''Rival'', venue = asc ''A'',
                 date = \<lparr>year = 2025, month = 10, day = 4, hour = 0, minute = 0\<rparr>,
                 start_time = None\<rparr>, rival_game]"]
  by (simp add: sort_games_def sort_key_of_def rival_game_def asc_def)

text \<open>
  The claim as the specification states it puts an undecided fixture after every timed
  fixture of its date. A fixture at 23:59 in venue \<open>B\<close> and an undecided fixture in
  venue \<open>A\<close> on the same date have the keys \<open>(date, 23:59, B)\<close> and
  \<open>(date, 23:59, A)\<close>: the undecided one is placed first.
\<close>

theorem sort_games_undecided_first_counterexample:
  "sort_games
     [\<lparr>home_away = asc ''[HOME]'', opponent = asc ''Rival'', venue = asc ''B'',
       date = \<lparr>year = 2025, month = 10, day = 4, hour = 0, minute = 0\<rparr>,
       start_time = Some (asc ''23:59'')\<rparr>,
      \<lparr>home_away = asc ''[HOME]'', opponent = asc ''Rival'', venue = asc ''A'',
       date = \<lparr>year = 2025, month = 10, day = 4, hour = 0, minute = 0\<rparr>,
       start_time = None\<rparr>]
   = [\<lparr>home_away = asc ''[HOME]'', opponent = asc ''Rival'', venue = asc ''A'',
       date = \<lparr>year = 2025, month = 10, day = 4, hour = 0, minute = 0\<rparr>,
       start_time = None\<rparr>,
      \<lparr>home_away = asc ''[HOME]'', opponent = asc ''Rival'', venue = asc ''B'',
       date = \<lparr>year = 2025, month = 10, day = 4, hour = 0, minute = 0\<rparr>,
       start_time = Some (asc ''23:59'')\<rparr>]"
  by (simp add: sort_games_def sort_key_of_def asc_def)

subsection \<open>Comparing two CSV files\<close>

lemma diff_rows_spec:
  "length diffs < 10 \<Longrightarrow>
   diff_rows i act expd diffs =
     diffs @ map (\<lambda>(j, a, e). Row_differs (j + 2) a e)
               (take (10 - length diffs)
                  (filter (\<lambda>(j, a, e). a \<noteq> e) (enumerate i (zip act expd))))"
proof (induction act arbitrary: i expd diffs)
  case Nil
  then show ?case by simp
next
  case (Cons a act)
  show ?case
  proof (cases expd)
    case Nil
    then show ?thesis by simp
  next
    case (Cons e expd')
    show ?thesis
    proof (cases "a = e")
      case True
      then show ?thesis
        using Cons.IH [OF Cons.prems, of "Suc i" expd'] Cons by simp
    next
      case False
      show ?thesis
      proof (cases "length diffs = 9")
        case True
        then show ?thesis
          using False Cons by simp
      next
        case short: False
        then have "length (diffs @ [Row_differs (i + 2) a e]) < 10"
          using Cons.prems by simp
        from Cons.IH [OF this, of "Suc i" expd'] show ?thesis
          using False Cons short Cons.prems
          by (simp add: Let_def take_Cons' Suc_diff_le)
      qed
    qed
  qed
qed

lemma enumerate_zip_nth:
  "enumerate 0 (zip xs ys) = map (\<lambda>i. (i, xs ! i, ys ! i)) [0..<min (length xs) (length ys)]"
  by (simp add: list_eq_iff_nth_eq nth_enumerate_eq)

lemma compare_rows_spec:
  "compare_rows act expd =
     (act = expd,
      if act = expd then []
      else map (\<lambda>i. Row_differs (i + 2) (act ! i) (expd ! i)) (take 10 (differing_rows act expd))
           @ (if length act \<noteq> length expd then [Length_differs (length act) (length expd)]
              else []))"
proof -
  have "diff_rows 0 act expd []
      = map (\<lambda>i. Row_differs (i + 2) (act ! i) (expd ! i)) (take 10 (differing_rows act expd))"
    by (simp add: diff_rows_spec enumerate_zip_nth filter_map take_map comp_def
        differing_rows_def del: upt_Suc)
  then show ?thesis
    by (simp add: compare_rows_def Let_def)
qed

text \<open>
  Claim C9. For two files that \<open>read_csv\<close> accepts, with data rows \<open>act\<close> and
  \<open>expd\<close>: the flag is true exactly when \<open>act = expd\<close>, and then nothing is
  reported. Otherwise the report lists, for the first ten indices \<open>i\<close> at which both
  files have a row and the rows differ, in ascending order, the entry for row \<open>i + 2\<close>
  with the two rows (the first data row is row 2, the header being row 1), followed by
  one note on the lengths when the numbers of data rows differ.
\<close>

theorem validate_csv_report:
  assumes "read_csv actual = Inr act" and "read_csv expected = Inr expd"
  shows "validate_csv actual expected =
           Inr (act = expd,
                if act = expd then []
                else map (\<lambda>i. Row_differs (i + 2) (act ! i) (expd ! i))
                       (take 10 (differing_rows act expd))
                     @ (if length act \<noteq> length expd
                        then [Length_differs (length act) (length expd)] else []))"
  using assms by (simp add: validate_csv_def compare_rows_spec)

theorem validate_csv_report_witness:
  "validate_csv
     [GOOGLE_HEADERS, [asc ''a''], [asc ''b''], [asc ''c''], [asc ''d''], [asc ''e'']]
     [GOOGLE_HEADERS, [asc ''a''], [asc ''b''], [asc ''x''], [asc ''d''], [asc ''e'']]
   = Inr (False, [Row_differs 4 [asc ''c''] [asc ''x'']])"
proof -
  have act: "read_csv [GOOGLE_HEADERS, [asc ''a''], [asc ''b''], [asc ''c''], [asc ''d''], [asc ''e'']]
               = Inr [[asc ''a''], [asc ''b''], [asc ''c''], [asc ''d''], [asc ''e'']]"
    by (simp add: read_csv_def GOOGLE_HEADERS_def strip_def strip_chars_def isspace_def asc_def)
  have expd: "read_csv [GOOGLE_HEADERS, [asc ''a''], [asc ''b''], [asc ''x''], [asc ''d''], [asc ''e'']]
               = Inr [[asc ''a''], [asc ''b''], [asc ''x''], [asc ''d''], [asc ''e'']]"
    by (simp add: read_csv_def GOOGLE_HEADERS_def strip_def strip_chars_def isspace_def asc_def)
  show ?thesis
    using validate_csv_report [OF act expd]
    by (simp add: differing_rows_def asc_def)
qed

subsection \<open>Characters, literals and the matcher\<close>

lemma startswith_iff: "startswith s p \<longleftrightarrow> (\<exists>post. s = p @ post)"
  by (induction s p rule: startswith.induct) auto

lemma contains_iff: "contains s needle \<longleftrightarrow> (\<exists>pre post. s = pre @ needle @ post)"
proof (induction s)
  case Nil
  then show ?case by simp
next
  case (Cons c cs)
  show ?case
  proof
    assume "contains (c # cs) needle"
    then consider "startswith (c # cs) needle" | "contains cs needle"
      by auto
    then show "\<exists>pre post. c # cs = pre @ needle @ post"
    proof cases
      case 1
      then obtain post where "c # cs = [] @ needle @ post"
        by (auto simp: startswith_iff)
      then show ?thesis by blast
    next
      case 2
      with Cons.IH obtain pre post where "cs = pre @ needle @ post"
        by blast
      then have "c # cs = (c # pre) @ needle @ post"
        by simp
      then show ?thesis by blast
    qed
  next
    assume "\<exists>pre post. c # cs = pre @ needle @ post"
    then obtain pre post where eq: "c # cs = pre @ needle @ post"
      by blast
    show "contains (c # cs) needle"
    proof (cases pre)
      case Nil
      with eq have "startswith (c # cs) needle"
        by (auto simp: startswith_iff)
      then show ?thesis by simp
    next
      case (Cons p pre')
      with eq have "cs = pre' @ needle @ post"
        by simp
      with Cons.IH show ?thesis
        by auto
    qed
  qed
qed

lemma digit_value_ascii: "k < 10 \<Longrightarrow> digit_value (48 + k) = Some k"
  by (simp add: digit_value_def decimal_zeros_def)

lemma isdigit_ascii [simp]: "k < 10 \<Longrightarrow> isdigit (48 + k)"
  by (simp add: isdigit_def digit_value_ascii)

lemma not_isdigit_punct [simp]: "\<not> isdigit 45" "\<not> isdigit 58" "\<not> isdigit 32"
  by (simp_all add: isdigit_def digit_value_def decimal_zeros_def)

lemma in_range_ascii [simp]: "in_range (48 + lo) (48 + hi) (48 + k) \<longleftrightarrow> lo \<le> k \<and> k \<le> hi"
  by (simp add: in_range_def)

lemma isspace_digit [simp]: "k < 10 \<Longrightarrow> \<not> isspace (48 + k)"
  by (simp add: isspace_def)

lemma asc_literals: "asc ''-'' = [45]" "asc '':'' = [58]" "asc '' '' = [32]"
  by (simp_all add: asc_def)

lemma digit_value_less: "digit_value c = Some d \<Longrightarrow> d < 10"
  by (auto simp: digit_value_def find_Some_iff split: option.splits)

lemma isdigit_value: "isdigit c \<Longrightarrow> \<exists>d < 10. digit_value c = Some d"
  using digit_value_less by (auto simp: isdigit_def)

lemma run_lit_Cons:
  "run (lit (c # cs)) st = (case fst st of [] \<Rightarrow> [] | x # xs \<Rightarrow> if x = c then run (lit cs) (xs, snd st) else [])"
  by (cases st; cases "fst st") (auto simp: lit_def one_def)

lemma run_lit_Nil: "run (lit []) st = [st]"
  by (simp add: lit_def)

lemma run_one:
  "run (one p) st = (case fst st of [] \<Rightarrow> [] | x # xs \<Rightarrow> if p x then [(xs, snd st)] else [])"
  by (cases st; cases "fst st") (auto simp: one_def)

lemma run_seq_lit1:
  "run (Seq (lit [c]) X) (c # rest, gs) = run X (rest, gs)"
  by (simp add: run_lit_Cons run_lit_Nil)

lemma all_le_Suc_shift: "(\<forall>k \<le> Suc n. P k) \<longleftrightarrow> P 0 \<and> (\<forall>k \<le> n. P (Suc k))"
proof
  assume "\<forall>k \<le> Suc n. P k"
  then show "P 0 \<and> (\<forall>k \<le> n. P (Suc k))" by simp
next
  assume h: "P 0 \<and> (\<forall>k \<le> n. P (Suc k))"
  show "\<forall>k \<le> Suc n. P k"
  proof (intro allI impI)
    fix k assume "k \<le> Suc n"
    with h show "P k" by (cases k) simp_all
  qed
qed

lemma search_from_None_iff:
  "search_from r i s = None \<longleftrightarrow> (\<forall>k \<le> length s. match_at r (drop k s) = None)"
proof (induction s arbitrary: i)
  case Nil
  then show ?case by (simp split: option.splits)
next
  case (Cons c cs)
  have "(\<forall>k \<le> length (c # cs). match_at r (drop k (c # cs)) = None)
          \<longleftrightarrow> match_at r (c # cs) = None \<and> (\<forall>k \<le> length cs. match_at r (drop k cs) = None)"
    using all_le_Suc_shift [of "length cs" "\<lambda>k. match_at r (drop k (c # cs)) = None"] by simp
  then show ?case
    using Cons.IH [of "Suc i"] by (simp split: option.splits)
qed

lemma search_from_leftmost:
  assumes "k \<le> length s" and "match_at r (drop k s) = Some (rest, gs)"
    and "\<forall>j < k. match_at r (drop j s) = None"
  shows "search_from r i s = Some (i + k, rest, gs)"
  using assms
proof (induction s arbitrary: i k)
  case Nil
  then show ?case by simp
next
  case (Cons c cs)
  show ?case
  proof (cases k)
    case 0
    with Cons.prems show ?thesis by simp
  next
    case (Suc k')
    with Cons.prems have first: "match_at r (c # cs) = None"
      by (metis drop0 zero_less_Suc)
    have "\<forall>j < k'. match_at r (drop j cs) = None"
    proof (intro allI impI)
      fix j assume "j < k'"
      then have "Suc j < k" using Suc by simp
      with Cons.prems(3) have "match_at r (drop (Suc j) (c # cs)) = None" by blast
      then show "match_at r (drop j cs) = None" by simp
    qed
    with Cons.IH [of k' "Suc i"] Cons.prems(1,2) Suc
    have "search_from r (Suc i) cs = Some (Suc i + k', rest, gs)"
      by simp
    with first Suc show ?thesis by simp
  qed
qed

subsection \<open>Numbers as digits\<close>

lemma length_decimal_small: "n < 10 \<Longrightarrow> length (decimal n) = 1"
  by (subst decimal.simps) simp

lemma length_format_02d: "n < 100 \<Longrightarrow> length (format_02d n) = 2"
proof (cases "n < 10")
  case True
  then show ?thesis by (simp add: format_02d_def length_decimal_small)
next
  case False
  assume "n < 100"
  then have "n div 10 < 10" by simp
  with False show ?thesis
    by (subst format_02d_def, subst decimal.simps) (simp add: length_decimal_small)
qed

lemma format_02d_digits: "n < 100 \<Longrightarrow> format_02d n = [48 + n div 10, 48 + n mod 10]"
proof (cases "n < 10")
  case True
  then show ?thesis
    by (subst format_02d_def, subst decimal.simps) simp
next
  case False
  assume "n < 100"
  then have "n div 10 < 10" by simp
  then have "decimal (n div 10) = [48 + n div 10]"
    by (subst decimal.simps) simp
  with False show ?thesis
    by (subst format_02d_def, subst decimal.simps) simp
qed

lemma decimal_four_digits:
  assumes "1000 \<le> y" "y < 10000"
  shows "decimal y = [48 + y div 1000, 48 + y div 100 mod 10, 48 + y div 10 mod 10, 48 + y mod 10]"
proof -
  have "y div 1000 < 10"
    using assms(2) by (intro less_mult_imp_div_less) simp
  moreover have "1000 div 100 \<le> y div 100" "1000 div 10 \<le> y div 10"
    using assms(1) by (intro div_le_mono, simp)+
  moreover have "y div 100 div 10 = y div 1000" "y div 10 div 10 = y div 100"
    by (simp_all add: div_mult2_eq [symmetric])
  ultimately have b: "y div 1000 < 10" "\<not> y div 100 < 10" "\<not> y div 10 < 10" "\<not> y < 10"
    "y div 100 div 10 = y div 1000" "y div 10 div 10 = y div 100"
    using assms(1) by simp_all
  have 1: "decimal (y div 1000) = [48 + y div 1000]"
    using b(1) by (subst decimal.simps) simp
  have 2: "decimal (y div 100) = decimal (y div 1000) @ [48 + y div 100 mod 10]"
    using b(2,5) by (subst decimal.simps) simp
  have 3: "decimal (y div 10) = decimal (y div 100) @ [48 + y div 10 mod 10]"
    using b(3,6) by (subst decimal.simps) simp
  have 4: "decimal y = decimal (y div 10) @ [48 + y mod 10]"
    using b(4) by (subst decimal.simps) simp
  show ?thesis
    by (simp add: 1 2 3 4)
qed

lemma decimal_all_digits: "list_all isdigit (decimal n)"
proof (induction n rule: decimal.induct)
  case (1 n)
  show ?case
  proof (cases "n < 10")
    case True
    then show ?thesis by (subst decimal.simps) simp
  next
    case False
    moreover have "n mod 10 < 10" by simp
    ultimately show ?thesis
      using 1 by (subst decimal.simps) simp
  qed
qed

lemma length_decimal_short: "n < 1000 \<Longrightarrow> length (decimal n) \<le> 3"
proof -
  assume n: "n < 1000"
  have 1: "length (decimal k) = 1" if "k < 10" for k
    using that by (subst decimal.simps) simp
  have 2: "length (decimal k) \<le> 2" if "k < 100" for k
  proof (cases "k < 10")
    case True
    then show ?thesis by (simp add: 1)
  next
    case False
    from that have "k div 10 < 10" by simp
    with False show ?thesis
      by (subst decimal.simps) (simp add: 1)
  qed
  show ?thesis
  proof (cases "n < 10")
    case True
    then show ?thesis by (simp add: 1)
  next
    case False
    from n have "n div 10 < 100" by simp
    with False 2 [of "n div 10"] show ?thesis
      by (subst decimal.simps) simp
  qed
qed

lemma four_digits_value:
  "1000 * (y div 1000) + 100 * (y div 100 mod 10) + 10 * (y div 10 mod 10) + y mod 10 = (y::nat)"
proof -
  have 1: "y = 10 * (y div 10) + y mod 10"
    by simp
  have 2: "y div 10 = 10 * (y div 100) + y div 10 mod 10"
    using div_mult_mod_eq [of "y div 10" 10] by (simp add: div_mult2_eq [symmetric])
  have 3: "y div 100 = 10 * (y div 1000) + y div 100 mod 10"
    using div_mult_mod_eq [of "y div 100" 10] by (simp add: div_mult2_eq [symmetric])
  from 1 2 3 show ?thesis
    by linarith
qed

lemma py_int_ascii2: "a < 10 \<Longrightarrow> b < 10 \<Longrightarrow> py_int [48 + a, 48 + b] = 10 * a + b"
  by (simp add: py_int_def digit_value_ascii)

lemma py_int_ascii4:
  "a < 10 \<Longrightarrow> b < 10 \<Longrightarrow> c < 10 \<Longrightarrow> d < 10 \<Longrightarrow>
   py_int [48 + a, 48 + b, 48 + c, 48 + d] = 1000 * a + 100 * b + 10 * c + d"
  by (simp add: py_int_def digit_value_ascii)

lemma format_02d_nonempty: "format_02d n \<noteq> []"
  by (subst format_02d_def, subst decimal.simps) simp

subsection \<open>The time of day in a text\<close>

lemma match_at_time_rx_cases:
  "match_at time_rx t =
     (case t of
        a # b # c # e # f # rest \<Rightarrow>
          if isdigit a \<and> isdigit b \<and> c = 58 \<and> isdigit e \<and> isdigit f
          then Some (rest, [(2, [e, f]), (1, [a, b])])
          else if isdigit a \<and> b = 58 \<and> isdigit c \<and> isdigit e
          then Some (f # rest, [(2, [c, e]), (1, [a])])
          else None
      | [a, b, c, e] \<Rightarrow>
          if isdigit a \<and> b = 58 \<and> isdigit c \<and> isdigit e
          then Some ([], [(2, [c, e]), (1, [a])])
          else None
      | _ \<Rightarrow> None)"
  by (auto simp: match_at_def time_rx_def asc_def run_lit_Cons run_lit_Nil upt_conv_Cons min_def
       split: list.splits)

lemma length_1: "length h = 1 \<longleftrightarrow> (\<exists>a. h = [a])"
  by (cases h) auto

lemma length_2: "length h = 2 \<longleftrightarrow> (\<exists>a b. h = [a, b])"
  by (cases h; cases "tl h") auto

lemma match_at_time_rx_sound:
  assumes "match_at time_rx t = Some (rest, gs)"
  shows "time_match_at t 0 (group gs 1) (group gs 2)"
  using assms unfolding match_at_time_rx_cases time_match_at_def
  by (auto simp: group_def split: list.splits if_splits)

lemma match_at_time_rx_complete:
  assumes "time_match_at t 0 h m"
  shows "\<exists>rest gs. match_at time_rx t = Some (rest, gs) \<and> group gs 1 = h \<and> group gs 2 = m"
proof -
  from assms have "length m = 2" "list_all isdigit m"
    by (simp_all add: time_match_at_def)
  then obtain e f where m: "m = [e, f]" "isdigit e" "isdigit f"
    unfolding length_2 by auto
  from assms have "take (length h + 3) t = h @ [58] @ m"
    by (simp add: time_match_at_def)
  with append_take_drop_id [of "length h + 3" t]
  have t: "t = h @ [58] @ m @ drop (length h + 3) t"
    by simp
  from assms have "length h = 1 \<or> length h = 2" "list_all isdigit h"
    by (simp_all add: time_match_at_def)
  then consider a where "h = [a]" "isdigit a" | a b where "h = [a, b]" "isdigit a" "isdigit b"
    unfolding length_1 length_2 by auto
  then show ?thesis
  proof cases
    case 1
    with t m have "t = a # 58 # e # f # drop 4 t" by simp
    then obtain rest where "t = a # 58 # e # f # rest" by blast
    with 1 m show ?thesis
      unfolding match_at_time_rx_cases by (cases rest) (simp_all add: group_def)
  next
    case 2
    with t m have "t = a # b # 58 # e # f # drop 5 t" by simp
    then obtain rest where "t = a # b # 58 # e # f # rest" by blast
    with 2 m show ?thesis
      unfolding match_at_time_rx_cases by (simp add: group_def)
  qed
qed

lemma time_match_at_drop: "i \<le> length s \<Longrightarrow> time_match_at (drop i s) 0 h m \<longleftrightarrow> time_match_at s i h m"
  by (simp add: time_match_at_def)

lemma time_match_at_bound: "time_match_at s i h m \<Longrightarrow> i \<le> length s"
  by (simp add: time_match_at_def)

lemma parse_time_marker: "contains s undecided_marker \<Longrightarrow> parse_time s = None"
  by (simp add: parse_time_def)

lemma parse_time_no_match:
  assumes "\<not> contains s undecided_marker" and "\<forall>i h m. \<not> time_match_at s i h m"
  shows "parse_time s = None"
proof -
  have "match_at time_rx (drop k s) = None" if "k \<le> length s" for k
  proof (cases "match_at time_rx (drop k s)")
    case None
    then show ?thesis .
  next
    case (Some x)
    obtain rest gs where "x = (rest, gs)" by (cases x)
    with Some have "match_at time_rx (drop k s) = Some (rest, gs)"
      by simp
    then have "time_match_at (drop k s) 0 (group gs 1) (group gs 2)"
      by (rule match_at_time_rx_sound)
    with that assms(2) show ?thesis
      by (simp add: time_match_at_drop)
  qed
  then have "search time_rx s = None"
    by (simp add: search_def search_from_None_iff)
  then show ?thesis
    by (simp add: parse_time_def)
qed

lemma parse_time_leftmost:
  assumes "\<not> contains s undecided_marker" and "time_match_at s i h m"
    and "\<forall>j < i. \<forall>h' m'. \<not> time_match_at s j h' m'"
  shows "parse_time s = Some (format_02d (py_int h) @ asc '':'' @ format_02d (py_int m))"
proof -
  have i: "i \<le> length s"
    using assms(2) by (rule time_match_at_bound)
  with assms(2) have "time_match_at (drop i s) 0 h m"
    by (simp add: time_match_at_drop)
  then obtain rest gs where here: "match_at time_rx (drop i s) = Some (rest, gs)"
    and gs: "group gs 1 = h" "group gs 2 = m"
    using match_at_time_rx_complete by blast
  have "match_at time_rx (drop j s) = None" if "j < i" for j
  proof (cases "match_at time_rx (drop j s)")
    case None
    then show ?thesis .
  next
    case (Some x)
    obtain rest' gs' where "x = (rest', gs')" by (cases x)
    with Some have "match_at time_rx (drop j s) = Some (rest', gs')"
      by simp
    then have "time_match_at (drop j s) 0 (group gs' 1) (group gs' 2)"
      by (rule match_at_time_rx_sound)
    moreover have "j \<le> length s" using that i by simp
    ultimately have "time_match_at s j (group gs' 1) (group gs' 2)"
      by (simp add: time_match_at_drop)
    with that assms(3) show ?thesis by blast
  qed
  then have "\<forall>j < i. match_at time_rx (drop j s) = None"
    by blast
  from search_from_leftmost [OF i here this, of 0]
  have "search time_rx s = Some (i, rest, gs)"
    by (simp add: search_def)
  then show ?thesis
    using assms(1) gs by (simp add: parse_time_def Let_def)
qed

lemma py_int_two_digits:
  assumes "length h = 1 \<or> length h = 2" and "list_all isdigit h"
  shows "py_int h < 100"
proof -
  from assms consider a where "h = [a]" "isdigit a" | a b where "h = [a, b]" "isdigit a" "isdigit b"
    unfolding length_1 length_2 by auto
  then show ?thesis
  proof cases
    case 1
    then obtain d where "d < 10" "digit_value a = Some d"
      using isdigit_value by blast
    with 1 show ?thesis by (simp add: py_int_def)
  next
    case 2
    then obtain d e where "d < 10" "digit_value a = Some d" "e < 10" "digit_value b = Some e"
      using isdigit_value by blast
    with 2 show ?thesis by (simp add: py_int_def)
  qed
qed

lemma time_match_at_colon: "time_match_at s i h m \<Longrightarrow> 58 \<in> set s"
proof -
  assume a: "time_match_at s i h m"
  then have "58 \<in> set (take (length h + 3) (drop i s))"
    by (simp add: time_match_at_def)
  then show ?thesis
    by (meson in_set_dropD in_set_takeD)
qed

text \<open>
  Claim C7. When the text contains the undecided marker, \<open>parse_time\<close> returns
  nothing, whatever else the text holds. Otherwise it returns nothing when the pattern
  \<open>\d{1,2}:\d{2}\<close> matches nowhere, and when the pattern matches at offset \<open>i\<close> with
  the groups \<open>h\<close> and \<open>m\<close> and at no smaller offset, it returns the value of \<open>h\<close>
  padded with zeros to two digits, a colon and the value of \<open>m\<close> in two digits.
\<close>

theorem parse_time_first_match:
  "(contains s undecided_marker \<longrightarrow> parse_time s = None) \<and>
   (\<not> contains s undecided_marker \<and> (\<forall>i h m. \<not> time_match_at s i h m)
      \<longrightarrow> parse_time s = None) \<and>
   (\<not> contains s undecided_marker \<and> time_match_at s i h m \<and>
    (\<forall>j < i. \<forall>h' m'. \<not> time_match_at s j h' m')
      \<longrightarrow> parse_time s = Some (format_02d (py_int h) @ asc '':'' @ format_02d (py_int m)) \<and>
          length (format_02d (py_int h)) = 2 \<and> length (format_02d (py_int m)) = 2)"
proof (intro conjI impI)
  show "parse_time s = None" if "contains s undecided_marker"
    using that by (rule parse_time_marker)
  show "parse_time s = None"
    if "\<not> contains s undecided_marker \<and> (\<forall>i h m. \<not> time_match_at s i h m)"
    using that parse_time_no_match by blast
next
  assume h: "\<not> contains s undecided_marker \<and> time_match_at s i h m \<and>
    (\<forall>j < i. \<forall>h' m'. \<not> time_match_at s j h' m')"
  then show "parse_time s = Some (format_02d (py_int h) @ asc '':'' @ format_02d (py_int m))"
    using parse_time_leftmost by blast
  from h have "py_int h < 100" "py_int m < 100"
    by (auto simp: time_match_at_def intro: py_int_two_digits)
  then show "length (format_02d (py_int h)) = 2" "length (format_02d (py_int m)) = 2"
    by (simp_all add: length_format_02d)
qed

theorem parse_time_first_match_witness:
  "parse_time (asc ''19:05 tip-off'') = Some (asc ''19:05'') \<and>
   parse_time (asc ''TBD'') = None \<and>
   parse_time (asc ''Gate 19:05 '' @ undecided_marker) = None"
proof -
  have 1: "\<not> contains (asc ''19:05 tip-off'') undecided_marker"
    by (simp add: asc_def undecided_marker_def)
  have 2: "time_match_at (asc ''19:05 tip-off'') 0 (asc ''19'') (asc ''05'')"
    by (simp add: time_match_at_def asc_def isdigit_def digit_value_def decimal_zeros_def)
  have 3: "\<not> contains (asc ''TBD'') undecided_marker"
    by (simp add: asc_def undecided_marker_def)
  have 4: "\<forall>i h m. \<not> time_match_at (asc ''TBD'') i h m"
    using time_match_at_colon [of "asc ''TBD''"] by (auto simp: asc_def)
  have 5: "contains (asc ''Gate 19:05 '' @ undecided_marker) undecided_marker"
    by (simp add: asc_def undecided_marker_def)
  have 6: "format_02d (py_int (asc ''19'')) @ asc '':'' @ format_02d (py_int (asc ''05''))
             = asc ''19:05''"
    by (simp add: string_simps)
  show ?thesis
    using parse_time_first_match [of "asc ''19:05 tip-off''" 0 "asc ''19''" "asc ''05''"]
      parse_time_first_match [of "asc ''TBD''"]
      parse_time_first_match [of "asc ''Gate 19:05 '' @ undecided_marker"]
      1 2 3 4 5 6
    by simp
qed

subsection \<open>Parsing the start of a game back\<close>

lemma run_rx_Y:
  assumes "isdigit a" "isdigit b" "isdigit c" "isdigit d"
  shows "run (Seq (Group 1 rx_Y) X) (a # b # c # d # rest, gs) = run X (rest, (1, [a, b, c, d]) # gs)"
  using assms by (simp add: rx_Y_def min_def upt_conv_Cons)

lemma run_rx_Y_short:
  assumes "length (takeWhile isdigit s) < 4"
  shows "run (Group 1 rx_Y) (s, gs) = []"
  using assms by (simp add: rx_Y_def min_def)

lemma run_rx_m:
  assumes "1 \<le> mo" "mo \<le> 12"
  shows "run (Seq (Group 2 rx_m) (Seq (lit [45]) X))
           ((48 + mo div 10) # (48 + mo mod 10) # 45 # rest, gs)
         = run X (rest, (2, [48 + mo div 10, 48 + mo mod 10]) # gs)"
proof -
  have "mo div 10 < 10" "mo mod 10 < 10" "mo div 10 \<le> 1"
    using assms by simp_all
  moreover have "mo div 10 = 1 \<longrightarrow> mo mod 10 \<le> 2" "mo div 10 = 0 \<longrightarrow> 1 \<le> mo mod 10"
    using assms by presburger+
  ultimately show ?thesis
    using in_range_ascii [of 0 2 "mo mod 10"] in_range_ascii [of 1 9 "mo mod 10"]
      in_range_ascii [of 1 9 "mo div 10"]
    by (cases "mo div 10 = 0")
       (auto simp: rx_m_def run_lit_Cons run_lit_Nil run_one asc_def simp del: in_range_ascii)
qed

lemma run_rx_d:
  assumes "1 \<le> dd" "dd \<le> 31" "k < 10"
  shows "run (Seq (Group 3 rx_d) (Seq (Chars isspace 1 None True) X))
           ((48 + dd div 10) # (48 + dd mod 10) # 32 # (48 + k) # rest, gs)
         = run X ((48 + k) # rest, (3, [48 + dd div 10, 48 + dd mod 10]) # gs)"
proof -
  have sp: "isspace 32" "\<not> isspace (48 + k)" "\<not> isspace (48 + dd mod 10)"
    using assms by (simp_all add: isspace_def [of 32])
  have "dd div 10 < 10" "dd mod 10 < 10" "dd div 10 \<le> 3"
    using assms by simp_all
  moreover have "dd div 10 = 3 \<longrightarrow> dd mod 10 \<le> 1" "dd div 10 = 0 \<longrightarrow> 1 \<le> dd mod 10"
    using assms by presburger+
  moreover have "dd div 10 = 0 \<or> dd div 10 = 1 \<or> dd div 10 = 2 \<or> dd div 10 = 3"
    using assms by presburger
  ultimately show ?thesis
    using in_range_ascii [of 0 1 "dd mod 10"] in_range_ascii [of 1 9 "dd mod 10"]
      in_range_ascii [of 1 9 "dd div 10"] in_range_ascii [of 1 2 "dd div 10"] sp
    by (elim disjE)
       (auto simp: rx_d_def run_lit_Cons run_lit_Nil run_one asc_def upt_conv_Cons
             simp del: in_range_ascii)
qed

lemma run_hour_minute:
  assumes "a < 10" "b < 10" "c < 10" "e < 10"
  shows "run (Seq (Group 4 rx_H) (Seq (lit [58]) (Group 5 rx_M)))
           ([48 + a, 48 + b, 58, 48 + c, 48 + e], gs)
         = (if 10 * a + b \<le> 23
            then (if 10 * c + e \<le> 59
                  then [([], (5, [48 + c, 48 + e]) # (4, [48 + a, 48 + b]) # gs),
                        ([48 + e], (5, [48 + c]) # (4, [48 + a, 48 + b]) # gs)]
                  else [([48 + e], (5, [48 + c]) # (4, [48 + a, 48 + b]) # gs)])
            else [])"
proof -
  have "10 * a + b \<le> 23 \<longleftrightarrow> (a = 2 \<and> b \<le> 3) \<or> a \<le> 1"
    using assms by presburger
  moreover have "10 * c + e \<le> 59 \<longleftrightarrow> c \<le> 5"
    using assms by presburger
  moreover have "48 + b \<noteq> 58"
    using assms by simp
  ultimately show ?thesis
    using in_range_ascii [of 0 3 b] in_range_ascii [of 0 1 a] in_range_ascii [of 0 5 c] assms
    by (auto simp: rx_H_def rx_M_def run_lit_Cons run_lit_Nil run_one asc_def
             simp del: in_range_ascii)
qed

lemma strptime_token:
  assumes "valid_date y mo dd" and "hh < 100" and "mm < 100"
  shows "strptime (strftime_date \<lparr>year = y, month = mo, day = dd, hour = h0, minute = m0\<rparr>
                     @ asc '' '' @ format_02d hh @ asc '':'' @ format_02d mm)
         = (if 1000 \<le> y \<and> hh \<le> 23 \<and> mm \<le> 59
            then Inr \<lparr>year = y, month = mo, day = dd, hour = int hh, minute = int mm\<rparr>
            else Inl ValueError)"
proof -
  define Y MO DD where "Y = nat y" and "MO = nat mo" and "DD = nat dd"
  have range: "1 \<le> Y" "Y < 10000" "1 \<le> MO" "MO \<le> 12" "1 \<le> DD" "DD \<le> 31"
    and casts: "int Y = y" "int MO = mo" "int DD = dd"
    using assms(1)
    by (auto simp: valid_date_def days_in_month_def Y_def MO_def DD_def split: if_splits)
  have mo: "format_02d MO = [48 + MO div 10, 48 + MO mod 10]"
    and dd: "format_02d DD = [48 + DD div 10, 48 + DD mod 10]"
    and hh: "format_02d hh = [48 + hh div 10, 48 + hh mod 10]"
    and mm: "format_02d mm = [48 + mm div 10, 48 + mm mod 10]"
    using range assms(2,3) by (simp_all add: format_02d_digits)
  define tail where "tail = 45 # (48 + MO div 10) # (48 + MO mod 10) # 45 # (48 + DD div 10)
                       # (48 + DD mod 10) # 32 # (48 + hh div 10)
                       # [48 + hh mod 10, 58, 48 + mm div 10, 48 + mm mod 10]"
  have whole: "strftime_date \<lparr>year = y, month = mo, day = dd, hour = h0, minute = m0\<rparr>
                @ asc '' '' @ format_02d hh @ asc '':'' @ format_02d mm = decimal Y @ tail"
    by (simp add: strftime_date_def tail_def Y_def [symmetric] MO_def [symmetric]
        DD_def [symmetric] mo dd hh mm asc_literals)
  show ?thesis
  proof (cases "1000 \<le> y")
    case False
    then have "Y < 1000"
      by (simp add: Y_def)
    then have "length (decimal Y) \<le> 3"
      by (rule length_decimal_short)
    moreover have "takeWhile isdigit (decimal Y @ tail) = decimal Y"
      using decimal_all_digits [of Y]
      by (simp add: tail_def takeWhile_append2 list_all_iff)
    ultimately have "run (Group 1 rx_Y) (decimal Y @ tail, []) = []"
      by (intro run_rx_Y_short) simp
    then have "match_at strptime_rx (decimal Y @ tail) = None"
      by (simp add: match_at_def strptime_rx_def)
    with False show ?thesis
      by (simp add: whole strptime_def)
  next
    case True
    then have Y: "1000 \<le> Y"
      by (simp add: Y_def)
    have digits: "Y div 1000 < 10" "Y div 100 mod 10 < 10" "Y div 10 mod 10 < 10" "Y mod 10 < 10"
      "hh div 10 < 10" "hh mod 10 < 10" "mm div 10 < 10" "mm mod 10 < 10"
      "MO div 10 < 10" "MO mod 10 < 10" "DD div 10 < 10" "DD mod 10 < 10"
      using range assms(2,3) by simp_all
    have year: "decimal Y = [48 + Y div 1000, 48 + Y div 100 mod 10, 48 + Y div 10 mod 10,
                            48 + Y mod 10]"
      using Y range(2) by (rule decimal_four_digits)
    have run: "run strptime_rx (decimal Y @ tail, [])
             = run (Seq (Group 4 rx_H) (Seq (lit [58]) (Group 5 rx_M)))
                 ([48 + hh div 10, 48 + hh mod 10, 58, 48 + mm div 10, 48 + mm mod 10],
                  [(3, [48 + DD div 10, 48 + DD mod 10]), (2, [48 + MO div 10, 48 + MO mod 10]),
                   (1, [48 + Y div 1000, 48 + Y div 100 mod 10, 48 + Y div 10 mod 10,
                        48 + Y mod 10])])"
      unfolding strptime_rx_def year tail_def asc_literals append_Cons append_Nil
      by (simp only: run_rx_Y [OF isdigit_ascii [OF digits(1)] isdigit_ascii [OF digits(2)]
                       isdigit_ascii [OF digits(3)] isdigit_ascii [OF digits(4)]]
            run_seq_lit1 run_rx_m [OF range(3,4)] run_rx_d [OF range(5,6) digits(5)])
    have time: "10 * (hh div 10) + hh mod 10 = hh" "10 * (mm div 10) + mm mod 10 = mm"
      by simp_all
    have ints: "py_int [48 + Y div 1000, 48 + Y div 100 mod 10, 48 + Y div 10 mod 10, 48 + Y mod 10] = Y"
      "py_int [48 + MO div 10, 48 + MO mod 10] = MO" "py_int [48 + DD div 10, 48 + DD mod 10] = DD"
      "py_int [48 + hh div 10, 48 + hh mod 10] = hh" "py_int [48 + mm div 10, 48 + mm mod 10] = mm"
      using digits range
      by (simp_all add: py_int_ascii2 py_int_ascii4 four_digits_value)
    show ?thesis
      using True assms(1)
      by (simp add: whole strptime_def match_at_def run run_hour_minute digits time group_def
          ints casts new_datetime_def del: run.simps)
  qed
qed

subsection \<open>The CSV row of a game\<close>

lemma to_row_undecided:
  assumes "start_time g = None \<or> start_time g = Some []"
  shows "to_row g =
           Inr [home_away g @ asc '' vs '' @ opponent g @ asc ''@'' @ venue g @ undecided_suffix,
                strftime_date (date g), [], strftime_date (date g), [], asc ''True'', venue g]"
  using assms by (auto simp: to_row_def)

lemma next_day_time: "next_day t = Inr t' \<Longrightarrow> hour t' = hour t \<and> minute t' = minute t"
  by (auto simp: next_day_def split: if_splits)

lemma next_day_total: "year t < 9999 \<Longrightarrow> \<exists>t'. next_day t = Inr t'"
  by (simp add: next_day_def)

lemma to_row_timed:
  assumes "valid_date (year (date g)) (month (date g)) (day (date g))"
    and "1000 \<le> year (date g)" "year (date g) < 9999"
    and "hh \<le> 23" "mm \<le> 59"
    and "start_time g = Some (format_02d hh @ asc '':'' @ format_02d mm)"
  shows "to_row g =
           Inr [home_away g @ asc '' vs '' @ opponent g @ asc ''@'' @ venue g,
                strftime_date (date g),
                format_02d hh @ asc '':'' @ format_02d mm,
                strftime_date (date g),
                format_02d ((hh * 60 + mm + 150) mod 1440 div 60) @ asc '':'' @
                  format_02d ((hh * 60 + mm + 150) mod 60),
                asc ''False'', venue g]"
proof -
  define start_dt where
    "start_dt = \<lparr>year = year (date g), month = month (date g), day = day (date g),
                 hour = int hh, minute = int mm\<rparr>"
  define total where "total = hh * 60 + mm + 150"
  have d: "date g = \<lparr>year = year (date g), month = month (date g), day = day (date g),
                     hour = hour (date g), minute = minute (date g)\<rparr>"
    by simp
  have parsed: "strptime (strftime_date (date g) @ asc '' '' @ format_02d hh @ asc '':'' @ format_02d mm)
          = Inr start_dt"
    using strptime_token [of "year (date g)" "month (date g)" "day (date g)" hh mm
        "hour (date g)" "minute (date g)"] assms(1,2,4,5)
    by (subst d) (simp add: start_dt_def)
  have same_day: "strftime_date start_dt = strftime_date (date g)"
    by (simp add: strftime_date_def start_dt_def)
  have start_str: "strftime_time start_dt = format_02d hh @ asc '':'' @ format_02d mm"
    by (simp add: strftime_time_def start_dt_def)
  have tot: "nat (hour start_dt * 60 + minute start_dt) + TIMEDELTA_MINUTES = total"
    by (simp add: start_dt_def total_def TIMEDELTA_MINUTES_def nat_add_distrib nat_mult_distrib)
  have "total div 1440 = 0 \<or> total div 1440 = 1"
    using assms(4,5) unfolding total_def by (auto simp: div_eq_0_iff)
  moreover have "year (start_dt\<lparr>hour := a, minute := b\<rparr>) < 9999" for a b
    using assms(3) by (simp add: start_dt_def)
  ultimately obtain end_dt where end_dt:
    "add_days (total div 1440)
       (start_dt\<lparr>hour := int (total mod 1440 div 60), minute := int (total mod 60)\<rparr>) = Inr end_dt"
    "hour end_dt = int (total mod 1440 div 60)" "minute end_dt = int (total mod 60)"
  proof (elim disjE)
    assume "total div 1440 = 0"
    then show ?thesis using that by simp
  next
    assume one: "total div 1440 = 1"
    obtain t' where t': "next_day (start_dt\<lparr>hour := int (total mod 1440 div 60),
                                          minute := int (total mod 60)\<rparr>) = Inr t'"
      using next_day_total [of "start_dt\<lparr>hour := int (total mod 1440 div 60),
                                          minute := int (total mod 60)\<rparr>"] assms(3)
      by (auto simp: start_dt_def)
    from next_day_time [OF t'] t' one show ?thesis
      using that by simp
  qed
  then have "add_minutes start_dt TIMEDELTA_MINUTES = Inr end_dt"
    by (simp add: add_minutes_def tot Let_def)
  moreover have "strftime_time end_dt
                   = format_02d (total mod 1440 div 60) @ asc '':'' @ format_02d (total mod 60)"
    by (simp add: strftime_time_def end_dt(2,3))
  ultimately show ?thesis
    using assms(6) parsed same_day start_str
    by (simp add: to_row_def format_02d_nonempty total_def)
qed

lemma to_row_bad_token:
  assumes "valid_date (year (date g)) (month (date g)) (day (date g))"
    and "hh < 100" "mm < 100" "23 < hh \<or> 59 < mm"
    and "start_time g = Some (format_02d hh @ asc '':'' @ format_02d mm)"
  shows "to_row g = Inl ValueError"
proof -
  have d: "date g = \<lparr>year = year (date g), month = month (date g), day = day (date g),
                     hour = hour (date g), minute = minute (date g)\<rparr>"
    by simp
  have "strptime (strftime_date (date g) @ asc '' '' @ format_02d hh @ asc '':'' @ format_02d mm)
          = Inl ValueError"
    using strptime_token [OF assms(1-3), of "hour (date g)" "minute (date g)"] assms(4)
    by (subst d) auto
  then show ?thesis
    using assms(5) by (simp add: to_row_def format_02d_nonempty)
qed

text \<open>
  Claim C10. \<open>parse_time\<close> does not check the range of the digits it finds: when the
  first match of the pattern in a text without the undecided marker has an hour above 23
  or minutes above 59, the token is returned, in two digits each, and \<open>to_row\<close> of a
  game with this start time raises ValueError, since \<open>strptime\<close> rejects the token.
\<close>

theorem parse_time_out_of_range_raises:
  assumes "\<not> contains s undecided_marker" and "time_match_at s i h m"
    and "\<forall>j < i. \<forall>h' m'. \<not> time_match_at s j h' m'"
    and "23 < py_int h \<or> 59 < py_int m"
    and "valid_datetime (date g)" and "start_time g = parse_time s"
  shows "parse_time s = Some (format_02d (py_int h) @ asc '':'' @ format_02d (py_int m)) \<and>
         to_row g = Inl ValueError"
proof -
  have token: "parse_time s = Some (format_02d (py_int h) @ asc '':'' @ format_02d (py_int m))"
    using assms(1-3) by (rule parse_time_leftmost)
  have "py_int h < 100" "py_int m < 100"
    using assms(2) by (auto simp: time_match_at_def intro: py_int_two_digits)
  moreover have "valid_date (year (date g)) (month (date g)) (day (date g))"
    using assms(5) by (simp add: valid_datetime_def)
  ultimately have "to_row g = Inl ValueError"
    using assms(4,6) token by (intro to_row_bad_token [of g "py_int h" "py_int m"]) simp_all
  with token show ?thesis by simp
qed

theorem parse_time_out_of_range_raises_witness:
  "parse_time (asc ''99:99'') = Some (asc ''99:99'') \<and>
   to_row \<lparr>home_away = asc ''[HOME]'', opponent = asc ''Rival'', venue = asc ''Arena'',
           date = \<lparr>year = 2025, month = 10, day = 4, hour = 0, minute = 0\<rparr>,
           start_time = Some (asc ''99:99'')\<rparr> = Inl ValueError"
proof -
  let ?g = "\<lparr>home_away = asc ''[HOME]'', opponent = asc ''Rival'', venue = asc ''Arena'',
           date = \<lparr>year = 2025, month = 10, day = 4, hour = 0, minute = 0\<rparr>,
           start_time = Some (asc ''99:99'')\<rparr>"
  have 1: "\<not> contains (asc ''99:99'') undecided_marker"
    by (simp add: asc_def undecided_marker_def)
  have 2: "time_match_at (asc ''99:99'') 0 (asc ''99'') (asc ''99'')"
    by (simp add: time_match_at_def asc_def isdigit_def digit_value_def decimal_zeros_def)
  have 3: "\<forall>j < (0::nat). \<forall>h' m'. \<not> time_match_at (asc ''99:99'') j h' m'"
    by simp
  have 4: "23 < py_int (asc ''99'') \<or> 59 < py_int (asc ''99'')"
    by (simp add: py_int_def asc_def digit_value_def decimal_zeros_def)
  have 5: "valid_datetime (date ?g)"
    by (simp add: valid_datetime_def valid_date_def days_in_month_def)
  have 6: "start_time ?g = parse_time (asc ''99:99'')"
    by (simp add: string_simps matcher_simps)
  have 7: "format_02d (py_int (asc ''99'')) @ asc '':'' @ format_02d (py_int (asc ''99''))
             = asc ''99:99''"
    by (simp add: string_simps)
  show ?thesis
    using parse_time_out_of_range_raises [OF 1 2 3 4 5 6] by (simp only: 7)
qed

text \<open>
  Claim C8, at a start time whose end is past midnight. The game of 2025-10-04 at 22:00
  ends at 00:30 on 2025-10-05; the row has the end time 00:30 and the end date
  2025-10-04, because the end date is formatted from the start, not from the end
  (\<open>to_row_timed\<close> above shows the same for every timed game).
\<close>

theorem to_row_end_date_after_midnight:
  "to_row \<lparr>home_away = asc ''[HOME]'', opponent = asc ''Rival'', venue = asc ''Arena'',
           date = \<lparr>year = 2025, month = 10, day = 4, hour = 0, minute = 0\<rparr>,
           start_time = Some (asc ''22:00'')\<rparr>
     = Inr [asc ''[HOME] vs Rival@Arena'', asc ''2025-10-04'', asc ''22:00'',
            asc ''2025-10-04'', asc ''00:30'', asc ''False'', asc ''Arena''] \<and>
   add_minutes \<lparr>year = 2025, month = 10, day = 4, hour = 22, minute = 0\<rparr> TIMEDELTA_MINUTES
     = Inr \<lparr>year = 2025, month = 10, day = 5, hour = 0, minute = 30\<rparr>"
  by (simp add: string_simps matcher_simps date_simps row_simps)

subsection \<open>One game per identity key within a month\<close>

lemma dict_set_values: "snd ` set (dict_set kvs k v) \<subseteq> insert v (snd ` set kvs)"
  by (induction kvs k v rule: dict_set.induct) auto

lemma dict_set_keys: "fst ` set (dict_set kvs k v) = insert k (fst ` set kvs)"
  by (induction kvs k v rule: dict_set.induct) auto

lemma dict_set_distinct: "distinct (map fst kvs) \<Longrightarrow> distinct (map fst (dict_set kvs k v))"
proof (induction kvs k v rule: dict_set.induct)
  case (1 k v)
  then show ?case by simp
next
  case (2 k' v' kvs k v)
  then show ?case
    using dict_set_keys [of kvs k v] by (auto simp: image_iff)
qed

lemma dict_set_keyed:
  "\<forall>(k', v') \<in> set kvs. k' = key v' \<Longrightarrow> \<forall>(k', v') \<in> set (dict_set kvs (key v) v). k' = key v'"
  by (induction kvs "key v" v rule: dict_set.induct) auto

lemma foldl_dict_set:
  assumes "distinct (map fst kvs)" and "\<forall>(k', v') \<in> set kvs. k' = key v'"
  shows "distinct (map fst (foldl (\<lambda>keyed g. dict_set keyed (key g) g) kvs gs)) \<and>
         (\<forall>(k', v') \<in> set (foldl (\<lambda>keyed g. dict_set keyed (key g) g) kvs gs). k' = key v') \<and>
         snd ` set (foldl (\<lambda>keyed g. dict_set keyed (key g) g) kvs gs) \<subseteq> snd ` set kvs \<union> set gs"
  using assms
proof (induction gs arbitrary: kvs)
  case Nil
  then show ?case by simp
next
  case (Cons g gs)
  let ?next = "dict_set kvs (key g) g"
  let ?all = "foldl (\<lambda>keyed g. dict_set keyed (key g) g) ?next gs"
  have 1: "distinct (map fst ?next)"
    using Cons.prems(1) by (rule dict_set_distinct)
  have 2: "\<forall>(k', v') \<in> set ?next. k' = key v'"
    using Cons.prems(2) by (rule dict_set_keyed)
  from Cons.IH [OF 1 2]
  have ih: "distinct (map fst ?all)" "\<forall>(k', v') \<in> set ?all. k' = key v'"
    "snd ` set ?all \<subseteq> snd ` set ?next \<union> set gs"
    by simp_all
  have "snd ` set ?next \<subseteq> insert g (snd ` set kvs)"
    by (rule dict_set_values)
  with ih(3) have "snd ` set ?all \<subseteq> snd ` set kvs \<union> set (g # gs)"
    by auto
  with ih(1,2) show ?case
    by simp
qed

lemma dedup_subset: "set (dedup gs) \<subseteq> set gs"
  using foldl_dict_set [of "[]" identity_key gs] by (simp add: dedup_def)

lemma dedup_distinct_keys: "distinct (map identity_key (dedup gs))"
proof -
  let ?kvs = "foldl (\<lambda>keyed g. dict_set keyed (identity_key g) g) [] gs"
  have d: "distinct (map fst ?kvs)" and k: "\<forall>(k', v') \<in> set ?kvs. k' = identity_key v'"
    using foldl_dict_set [of "[]" identity_key gs] by simp_all
  from k have eq: "map identity_key (map snd ?kvs) = map fst ?kvs"
    by auto
  show ?thesis
    unfolding dedup_def eq by (rule d)
qed

subsection \<open>The month of the extracted games\<close>

lemma new_date_fields:
  "new_date y mo d = Inr t \<Longrightarrow> year t = y \<and> month t = mo \<and> day t = d"
  by (auto simp: new_date_def new_datetime_def split: if_splits)

lemma schedule_item_month:
  assumes "schedule_item yr mon home_keywords it = Inr (Some g)"
  shows "year (date g) = yr \<and> month (date g) = mon"
proof -
  from assms obtain d dt where "new_date yr mon d = Inr dt" and "date g = dt"
    by (auto simp: schedule_item_def Let_def split: option.splits sum.splits if_splits)
  then show ?thesis
    using new_date_fields by auto
qed

lemma collect_set:
  "collect f xs acc = Inr bs \<Longrightarrow> set bs \<subseteq> set acc \<union> {b. \<exists>x \<in> set xs. f x = Inr (Some b)}"
proof (induction xs arbitrary: acc)
  case Nil
  then show ?case by auto
next
  case (Cons x xs)
  show ?case
  proof (cases "f x")
    case (Inl e)
    with Cons.prems show ?thesis by simp
  next
    case (Inr r)
    show ?thesis
    proof (cases r)
      case None
      with Inr Cons.prems have "collect f xs acc = Inr bs" by simp
      from Cons.IH [OF this] show ?thesis by auto
    next
      case (Some b)
      with Inr Cons.prems have "collect f xs (acc @ [b]) = Inr bs" by simp
      from Cons.IH [OF this] Inr Some show ?thesis by auto
    qed
  qed
qed

lemma parse_schedule_list_month:
  assumes "parse_schedule_list yr mon its home_keywords = Inr games" and "g \<in> set games"
  shows "year (date g) = yr \<and> month (date g) = mon"
proof -
  from assms(1) obtain found where found: "collect (schedule_item yr mon home_keywords) its [] = Inr found"
    and games: "games = dedup found"
    by (auto simp: parse_schedule_list_def split: sum.splits)
  from assms(2) games have "g \<in> set found"
    using dedup_subset by blast
  with collect_set [OF found] obtain it where "schedule_item yr mon home_keywords it = Inr (Some g)"
    by auto
  then show ?thesis
    by (rule schedule_item_month)
qed

text \<open>
  Claim C1. The structured pass returns only games of the target year and month
  (\<open>parse_schedule_list_month\<close> above). The heuristic pass does not look at the target
  month: asked for November 2025, a page without schedule list whose only node reads
  \<open>vs Rival @Arena 2025.10.4 18:05\<close> yields the game of 4 October.
\<close>

theorem heuristic_pass_ignores_month:
  "parse_alvark_month 2025 11
     \<lparr>items = [], cards = [asc ''vs Rival @Arena 2025.10.4 18:05'']\<rparr> = Inr [rival_game] \<and>
   month (date rival_game) = 10"
  by (simp add: parse_alvark_month_def parse_schedule_list_def heuristic_pass_def
      heuristic_card_rival dedup_def rival_game_def)

subsection \<open>Nodes with an ill-formed date\<close>













end
